theory Spec2Isabelle
  imports Main
begin

section \<open>Text, bytes and the library functions the client uses\<close>

text \<open>
  A Python \<open>str\<close> is modelled as a \<open>string\<close> whose characters are the code points below
  256; a \<open>bytes\<close> value is a \<open>string\<close> whose characters are the bytes.
\<close>

definition NUL :: char where "NUL = CHR 0x00"
definition CR :: char where "CR = CHR 0x0D"
definition LF :: char where "LF = CHR 0x0A"
definition CRLF :: string where "CRLF = [CR, LF]"

definition code :: "char \<Rightarrow> nat" where
  "code c = of_char c"

text \<open>\<open>str.isspace\<close> on the code points below 256.\<close>

definition is_space :: "char \<Rightarrow> bool" where
  "is_space c = (let n = code c in
     (9 \<le> n \<and> n \<le> 13) \<or> (28 \<le> n \<and> n \<le> 32) \<or> n = 133 \<or> n = 160)"

text \<open>\<open>s.strip()\<close>: leading and trailing whitespace removed.\<close>

definition strip :: "string \<Rightarrow> string" where
  "strip s = rev (dropWhile is_space (rev (dropWhile is_space s)))"

text \<open>\<open>s.startswith(p)\<close> and \<open>p in s\<close>.\<close>

fun startswith :: "string \<Rightarrow> string \<Rightarrow> bool" where
  "startswith s [] = True"
| "startswith [] (p # ps) = False"
| "startswith (c # cs) (p # ps) = (c = p \<and> startswith cs ps)"

fun contains :: "string \<Rightarrow> string \<Rightarrow> bool" where
  "contains p [] = (p = [])"
| "contains p (c # cs) = (startswith (c # cs) p \<or> contains p cs)"

text \<open>\<open>sep.join(xs)\<close>.\<close>

fun join :: "string \<Rightarrow> string list \<Rightarrow> string" where
  "join sep [] = []"
| "join sep [x] = x"
| "join sep (x # y # ys) = x @ sep @ join sep (y # ys)"

text \<open>\<open>s.encode()\<close>: UTF-8, one byte below 128 and two bytes from 128 to 255.\<close>

definition encode_char :: "char \<Rightarrow> string" where
  "encode_char c = (let n = code c in
     if n < 128 then [c] else [char_of (192 + n div 64), char_of (128 + n mod 64)])"

definition encode :: "string \<Rightarrow> string" where
  "encode s = concat (map encode_char s)"

text \<open>\<open>base64.b64encode\<close>: the standard alphabet, three bytes to four characters, padded with \<open>=\<close>.\<close>

definition b64_alphabet :: string where
  "b64_alphabet = ''ABCDEFGHIJKLMNOPQRSTUVWXYZabcdefghijklmnopqrstuvwxyz0123456789+/''"

definition b64_digit :: "nat \<Rightarrow> char" where
  "b64_digit n = b64_alphabet ! (n mod 64)"

fun b64encode :: "string \<Rightarrow> string" where
  "b64encode [] = []"
| "b64encode [a] =
     [b64_digit (code a div 4), b64_digit (code a mod 4 * 16), CHR ''='', CHR ''='']"
| "b64encode [a, b] =
     [b64_digit (code a div 4), b64_digit (code a mod 4 * 16 + code b div 16),
      b64_digit (code b mod 16 * 4), CHR ''='']"
| "b64encode (a # b # c # rest) =
     [b64_digit (code a div 4), b64_digit (code a mod 4 * 16 + code b div 16),
      b64_digit (code b mod 16 * 4 + code c div 64), b64_digit (code c mod 64)]
     @ b64encode rest"

section \<open>Regular expressions and the address pattern\<close>

text \<open>
  The fragment of \<open>re\<close> that \<open>EMAIL_REGEX\<close> uses: character classes, concatenation and
  repetition. Matching is by derivatives; \<open>matches r s\<close> holds when the whole of \<open>s\<close> is in the
  language of \<open>r\<close>.
\<close>

datatype rexp =
    Zero
  | One
  | Atom "char \<Rightarrow> bool"
  | Alt rexp rexp
  | Seq rexp rexp
  | Star rexp

fun nullable :: "rexp \<Rightarrow> bool" where
  "nullable Zero = False"
| "nullable One = True"
| "nullable (Atom p) = False"
| "nullable (Alt r s) = (nullable r \<or> nullable s)"
| "nullable (Seq r s) = (nullable r \<and> nullable s)"
| "nullable (Star r) = True"

fun deriv :: "char \<Rightarrow> rexp \<Rightarrow> rexp" where
  "deriv c Zero = Zero"
| "deriv c One = Zero"
| "deriv c (Atom p) = (if p c then One else Zero)"
| "deriv c (Alt r s) = Alt (deriv c r) (deriv c s)"
| "deriv c (Seq r s) =
     (if nullable r then Alt (Seq (deriv c r) s) (deriv c s) else Seq (deriv c r) s)"
| "deriv c (Star r) = Seq (deriv c r) (Star r)"

fun matches :: "rexp \<Rightarrow> string \<Rightarrow> bool" where
  "matches r [] = nullable r"
| "matches r (c # cs) = matches (deriv c r) cs"

text \<open>\<open>r+\<close> and \<open>r{2,}\<close>.\<close>

definition Plus1 :: "rexp \<Rightarrow> rexp" where
  "Plus1 r = Seq r (Star r)"

definition AtLeast2 :: "rexp \<Rightarrow> rexp" where
  "AtLeast2 r = Seq r (Seq r (Star r))"

definition in_range :: "char \<Rightarrow> char \<Rightarrow> char \<Rightarrow> bool" where
  "in_range lo hi c = (code lo \<le> code c \<and> code c \<le> code hi)"

text \<open>\<open>[a-zA-Z]\<close>, \<open>[a-zA-Z0-9._%+-]\<close> and \<open>[a-zA-Z0-9.-]\<close>.\<close>

definition letter :: "char \<Rightarrow> bool" where
  "letter c = (in_range CHR ''a'' CHR ''z'' c \<or> in_range CHR ''A'' CHR ''Z'' c)"

definition local_char :: "char \<Rightarrow> bool" where
  "local_char c = (letter c \<or> in_range CHR ''0'' CHR ''9'' c \<or> c \<in> set ''._%+-'')"

definition domain_char :: "char \<Rightarrow> bool" where
  "domain_char c = (letter c \<or> in_range CHR ''0'' CHR ''9'' c \<or> c \<in> set ''.-'')"

text \<open>
  The pattern between the anchors of
  \<^verbatim>\<open>^[a-zA-Z0-9._%+-]+@[a-zA-Z0-9.-]+\.[a-zA-Z]{2,}$\<close>.
\<close>

definition EMAIL_REGEX :: rexp where
  "EMAIL_REGEX =
     Seq (Plus1 (Atom local_char))
       (Seq (Atom (\<lambda>c. c = CHR ''@''))
         (Seq (Plus1 (Atom domain_char))
           (Seq (Atom (\<lambda>c. c = CHR ''.''))
             (AtLeast2 (Atom letter)))))"

text \<open>
  \<open>re.match\<close> of \<open>^r$\<close>: the match starts at the first character, and \<open>$\<close> holds at the end of
  the string and also just before a line feed that ends the string.
\<close>

definition match_anchored :: "rexp \<Rightarrow> string \<Rightarrow> bool" where
  "match_anchored r s =
     (matches r s \<or> (s \<noteq> [] \<and> last s = LF \<and> matches r (butlast s)))"

section \<open>The address validator\<close>

text \<open>\<open>validate_email_address\<close> of \<open>smtp_utils.py\<close>, on a \<open>str\<close> as its signature says.\<close>

definition validate_email_address :: "string \<Rightarrow> bool" where
  "validate_email_address email = match_anchored EMAIL_REGEX email"

text \<open>
  The arguments arrive from \<open>json.loads\<close> and the command line, so at run time the function
  can be handed a value that is not a \<open>str\<close>; \<open>re.match\<close> then raises \<open>TypeError\<close>.
\<close>

datatype pyval = PyStr string | PyInt int | PyNone

datatype exn =
    SMTPClientError string
  | TypeError
  | ConnectionError
  | UnicodeDecodeError

definition validate_email_address_dyn :: "pyval \<Rightarrow> exn + bool" where
  "validate_email_address_dyn email =
     (case email of PyStr s \<Rightarrow> Inr (validate_email_address s) | _ \<Rightarrow> Inl TypeError)"

text \<open>\<open>validate_email_address\<close> of \<open>smtp_client.py\<close>, which tests \<open>isinstance(email, str)\<close> first.\<close>

definition client_validate_email_address :: "pyval \<Rightarrow> bool" where
  "client_validate_email_address email =
     (case email of PyStr s \<Rightarrow> match_anchored EMAIL_REGEX s | _ \<Rightarrow> False)"

section \<open>The transport and the session state\<close>

text \<open>
  What the transport did, in order: a connection opened or refused, bytes written and
  drained, a read, a close.
\<close>

datatype event = Opened | Refused | Sent string | Received | Closed

text \<open>
  What one read yields (\<open>reader.read(1024)\<close> in the client, \<open>recv(1024)\<close> in the server):
  bytes that decode to a text, bytes that do not decode, or a failure of the read itself.
\<close>

datatype incoming = Data string | Garbled | Broken

text \<open>
  The state a call of \<open>send_email\<close> runs in. \<open>can_connect\<close>, \<open>inbox\<close> and \<open>wfault\<close> are the
  environment: whether \<open>open_connection\<close> succeeds, what the successive reads will yield (a read
  past the end of \<open>inbox\<close> yields no bytes, as after the peer has closed), and how many
  \<open>drain\<close> calls succeed before one raises (\<open>None\<close>: all succeed). \<open>log\<close> records the transport
  operations performed, and \<open>error_type\<close> is the local variable of that name.
\<close>

record session =
  can_connect :: bool
  inbox :: "incoming list"
  wfault :: "nat option"
  log :: "event list"
  error_type :: int

type_synonym 'a io = "session \<Rightarrow> (exn + 'a) \<times> session"

definition bind :: "'a io \<Rightarrow> ('a \<Rightarrow> 'b io) \<Rightarrow> 'b io" where
  "bind m f s = (case m s of (Inl e, s') \<Rightarrow> (Inl e, s') | (Inr a, s') \<Rightarrow> f a s')"

definition done_io :: "unit io" where
  "done_io s = (Inr (), s)"

text \<open>Statements in sequence.\<close>

fun run_all :: "unit io list \<Rightarrow> unit io" where
  "run_all [] = done_io"
| "run_all (m # ms) = bind m (\<lambda>_. run_all ms)"

text \<open>\<open>asyncio.open_connection\<close>.\<close>

definition open_connection :: "unit io" where
  "open_connection s =
     (if can_connect s then (Inr (), s\<lparr>log := log s @ [Opened]\<rparr>)
      else (Inl ConnectionError, s\<lparr>log := log s @ [Refused]\<rparr>))"

text \<open>\<open>writer.write(data)\<close> followed by \<open>await writer.drain()\<close>.\<close>

definition write_drain :: "string \<Rightarrow> unit io" where
  "write_drain data s =
     (case wfault s of
        None \<Rightarrow> (Inr (), s\<lparr>log := log s @ [Sent data]\<rparr>)
      | Some 0 \<Rightarrow> (Inl ConnectionError, s\<lparr>wfault := None, log := log s @ [Sent data]\<rparr>)
      | Some (Suc n) \<Rightarrow> (Inr (), s\<lparr>wfault := Some n, log := log s @ [Sent data]\<rparr>))"

text \<open>\<open>read_server_response\<close>.\<close>

definition classify_response :: "string \<Rightarrow> exn + string" where
  "classify_response decoded_response =
     (if take 1 decoded_response \<notin> {''2'', ''3''}
      then Inl (SMTPClientError (''Error del servidor: '' @ decoded_response))
      else Inr decoded_response)"

definition read_server_response :: "string io" where
  "read_server_response s =
     (case inbox s of
        [] \<Rightarrow> (classify_response (strip []), s\<lparr>log := log s @ [Received]\<rparr>)
      | Data response_data # rest \<Rightarrow>
          (classify_response (strip response_data), s\<lparr>inbox := rest, log := log s @ [Received]\<rparr>)
      | Garbled # rest \<Rightarrow> (Inl UnicodeDecodeError, s\<lparr>inbox := rest, log := log s @ [Received]\<rparr>)
      | Broken # rest \<Rightarrow> (Inl ConnectionError, s\<lparr>inbox := rest, log := log s @ [Received]\<rparr>))"

definition await_response :: "unit io" where
  "await_response = bind read_server_response (\<lambda>_. done_io)"

section \<open>The command sequence of \<open>send_email\<close>\<close>

text \<open>
  \<open>try: await read_server_response(reader)\<close> \<open>except SMTPClientError: error_type = n; raise\<close>.
\<close>

definition tagged_response :: "int \<Rightarrow> unit io" where
  "tagged_response n s =
     (case await_response s of
        (Inl (SMTPClientError msg), s') \<Rightarrow> (Inl (SMTPClientError msg), s'\<lparr>error_type := n\<rparr>)
      | (r, s') \<Rightarrow> (r, s'))"

text \<open>The authentication block (the inner \<open>try\<close>).\<close>

definition auth_credentials :: "string \<Rightarrow> string \<Rightarrow> string" where
  "auth_credentials sender_address sender_password =
     encode (NUL # sender_address @ NUL # sender_password)"

definition auth_attempt :: "string \<Rightarrow> string \<Rightarrow> unit io" where
  "auth_attempt sender_address sender_password =
     bind (write_drain (''AUTH PLAIN'' @ CRLF)) (\<lambda>_.
     bind read_server_response (\<lambda>auth_response.
       if startswith auth_response ''334''
       then run_all
              [write_drain (b64encode (auth_credentials sender_address sender_password) @ CRLF),
               await_response]
       else done_io))"

definition authenticate :: "string \<Rightarrow> string \<Rightarrow> unit io" where
  "authenticate sender_address sender_password s =
     (case auth_attempt sender_address sender_password s of
        (Inl (SMTPClientError msg), s') \<Rightarrow>
          if contains ''502'' msg then (Inr (), s') else (Inl (SMTPClientError msg), s')
      | (r, s') \<Rightarrow> (r, s'))"

definition mail_from :: "string \<Rightarrow> unit io" where
  "mail_from sender_address =
     run_all [write_drain (encode (''MAIL FROM:'' @ sender_address @ CRLF)), tagged_response 1]"

fun rcpt_to_all :: "string list \<Rightarrow> unit io" where
  "rcpt_to_all [] = done_io"
| "rcpt_to_all (recipient # rest) =
     run_all [write_drain (encode (''RCPT TO:'' @ recipient @ CRLF)), tagged_response 2,
              rcpt_to_all rest]"

text \<open>The steps that come before \<open>MAIL FROM\<close>, and the whole body of the outer \<open>try\<close>.\<close>

definition opening_steps :: "string \<Rightarrow> string \<Rightarrow> unit io list" where
  "opening_steps sender_address sender_password =
     [open_connection, await_response,
      write_drain (''EHLO localhost'' @ CRLF), await_response,
      authenticate sender_address sender_password]"

definition closing_steps :: "string \<Rightarrow> unit io list" where
  "closing_steps email_content =
     [write_drain (''DATA'' @ CRLF), await_response,
      write_drain (encode email_content @ CRLF @ ''.'' @ CRLF), await_response,
      write_drain (''QUIT'' @ CRLF), await_response]"

definition session_steps ::
  "string \<Rightarrow> string \<Rightarrow> string list \<Rightarrow> string \<Rightarrow> unit io list" where
  "session_steps sender_address sender_password recipient_addresses email_content =
     opening_steps sender_address sender_password
     @ [mail_from sender_address, rcpt_to_all recipient_addresses]
     @ closing_steps email_content"

text \<open>The message: the four standard headers, the custom headers in their order, the body.\<close>

definition build_content ::
  "string \<Rightarrow> string list \<Rightarrow> string \<Rightarrow> string \<Rightarrow> (string \<times> string) list \<Rightarrow> string \<Rightarrow> string" where
  "build_content sender_address recipient_addresses email_subject email_body custom_headers date =
     (let email_headers =
            [''From: '' @ sender_address,
             ''To: '' @ join '', '' recipient_addresses,
             ''Subject: '' @ email_subject,
             ''Date: '' @ date]
            @ map (\<lambda>(header, v). header @ '': '' @ v) custom_headers
      in join CRLF email_headers @ CRLF @ CRLF @ email_body)"

fun recipients_valid :: "string list \<Rightarrow> bool" where
  "recipients_valid [] = True"
| "recipients_valid (recipient # rest) =
     (if \<not> validate_email_address recipient then False else recipients_valid rest)"

text \<open>The two \<open>except\<close> clauses of the outer \<open>try\<close>.\<close>

definition failure_type :: "exn \<Rightarrow> int \<Rightarrow> int" where
  "failure_type e et =
     (case e of
        SMTPClientError msg \<Rightarrow>
          if et = 0
          then (if contains ''501'' msg then 1 else if contains ''550'' msg then 2 else et)
          else et
      | _ \<Rightarrow> 3)"

text \<open>
  \<open>send_email\<close>. \<open>date\<close> stands for the value of \<open>formatdate(localtime=True)\<close>. The result is
  the returned pair \<open>(email_sent, error_type)\<close> and the state the call leaves behind.
\<close>

definition send_email ::
  "string \<Rightarrow> string \<Rightarrow> string list \<Rightarrow> string \<Rightarrow> string \<Rightarrow> (string \<times> string) list \<Rightarrow> string
     \<Rightarrow> session \<Rightarrow> (bool \<times> int) \<times> session" where
  "send_email sender_address sender_password recipient_addresses email_subject email_body
       custom_headers date s =
     (if \<not> validate_email_address sender_address then ((False, 1), s)
      else if \<not> recipients_valid recipient_addresses then ((False, 2), s)
      else
        let email_content = build_content sender_address recipient_addresses email_subject
                              email_body custom_headers date
        in case run_all (session_steps sender_address sender_password recipient_addresses
                           email_content) (s\<lparr>error_type := 0\<rparr>) of
             (Inr _, s') \<Rightarrow> ((True, error_type s'), s')
           | (Inl e, s') \<Rightarrow> ((False, failure_type e (error_type s')), s'))"

section \<open>The caller-facing boundary (\<open>main\<close>)\<close>

definition error_messages :: "int \<rightharpoonup> string" where
  "error_messages =
     [0 \<mapsto> ''Error desconocido del servidor'',
      1 \<mapsto> ''Invalid sender address'',
      2 \<mapsto> ''Invalid recipient address'',
      3 \<mapsto> ''Error de protocolo SMTP'']"

definition status_codes :: "int \<rightharpoonup> int" where
  "status_codes = [0 \<mapsto> 550, 1 \<mapsto> 501, 2 \<mapsto> 550, 3 \<mapsto> 503]"

text \<open>\<open>d.get(k, default)\<close>.\<close>

definition get_or :: "('k \<rightharpoonup> 'v) \<Rightarrow> 'k \<Rightarrow> 'v \<Rightarrow> 'v" where
  "get_or d k dflt = (case d k of None \<Rightarrow> dflt | Some v \<Rightarrow> v)"

text \<open>The \<open>output\<close> object built from the pair that \<open>send_email\<close> returned.\<close>

definition main_output :: "bool \<times> int \<Rightarrow> int \<times> string" where
  "main_output r =
     (case r of (result, et) \<Rightarrow>
        if result then (250, ''Message accepted for delivery'')
        else (get_or status_codes et 550, get_or error_messages et ''Unknown error''))"

section \<open>The toy server\<close>






section \<open>Vocabulary of the properties\<close>

text \<open>
  A response line is accepted when, stripped, it begins with \<open>2\<close> or \<open>3\<close>; for any other line
  \<open>read_server_response\<close> raises \<open>server_error\<close> of that line.
\<close>

definition accepted :: "string \<Rightarrow> bool" where
  "accepted line = (case strip line of [] \<Rightarrow> False | c # _ \<Rightarrow> c = CHR ''2'' \<or> c = CHR ''3'')"

definition server_error :: "string \<Rightarrow> exn" where
  "server_error line = SMTPClientError (''Error del servidor: '' @ strip line)"

text \<open>
  The language of a regular expression, against which the derivative matcher is checked,
  and the address pattern in the words of the specification: a local part of one or more
  of \<open>[A-Za-z0-9._%+-]\<close>, \<open>@\<close>, a domain of one or more of \<open>[A-Za-z0-9.-]\<close>, a dot, and a
  top-level label of at least two letters.
\<close>

fun denotes :: "rexp \<Rightarrow> string \<Rightarrow> bool" where
  "denotes Zero w = False"
| "denotes One w = (w = [])"
| "denotes (Atom p) w = (\<exists>c. w = [c] \<and> p c)"
| "denotes (Alt r s) w = (denotes r w \<or> denotes s w)"
| "denotes (Seq r s) w = (\<exists>u v. w = u @ v \<and> denotes r u \<and> denotes s v)"
| "denotes (Star r) w = (\<exists>ws. w = concat ws \<and> (\<forall>x \<in> set ws. denotes r x))"

definition spec_address_pattern :: "string \<Rightarrow> bool" where
  "spec_address_pattern s =
     (\<exists>local dom tld.
        s = local @ ''@'' @ dom @ ''.'' @ tld
        \<and> local \<noteq> [] \<and> list_all local_char local
        \<and> dom \<noteq> [] \<and> list_all domain_char dom
        \<and> 2 \<le> length tld \<and> list_all letter tld)"

text \<open>The transport events of one \<open>RCPT TO\<close> exchange per recipient.\<close>

definition rcpt_events :: "string list \<Rightarrow> event list" where
  "rcpt_events rs = concat (map (\<lambda>r. [Sent (encode (''RCPT TO:'' @ r @ CRLF)), Received]) rs)"

text \<open>A step is quiet when all it adds to the log are writes and reads.\<close>

definition wire_event :: "event \<Rightarrow> bool" where
  "wire_event e = (case e of Sent d \<Rightarrow> True | Received \<Rightarrow> True | _ \<Rightarrow> False)"

definition quiet :: "'a io \<Rightarrow> bool" where
  "quiet m = (\<forall>s. \<exists>evs. log (snd (m s)) = log s @ evs \<and> list_all wire_event evs)"

text \<open>
  The state of \<open>error_type\<close> when a step ends: only a protocol error leaves a tag, the tag is
  1 or 2, and the message of a protocol error is the fixed prefix followed by the response.
\<close>

definition settled :: "(exn + 'a) \<times> session \<Rightarrow> bool" where
  "settled rs =
     (case rs of
        (Inl (SMTPClientError msg), s') \<Rightarrow>
          error_type s' \<in> {0, 1, 2} \<and> (\<exists>text. msg = ''Error del servidor: '' @ text)
      | (_, s') \<Rightarrow> error_type s' = 0)"

definition tagging :: "'a io \<Rightarrow> bool" where
  "tagging m = (\<forall>s. error_type s = 0 \<longrightarrow> settled (m s))"

text \<open>A transport that accepts the connection, never fails, and answers with the given lines.\<close>

definition scripted :: "string list \<Rightarrow> session" where
  "scripted lines =
     \<lparr>can_connect = True, inbox = map Data lines, wfault = None, log = [], error_type = 0\<rparr>"






section \<open>Properties\<close>

subsection \<open>Single transport steps\<close>

lemma classify_response_strip:
  "classify_response (strip line) = (if accepted line then Inr (strip line) else Inl (server_error line))"
  by (cases "strip line") (auto simp: classify_response_def accepted_def server_error_def)

lemma write_drain_ok [simp]:
  "wfault s = None \<Longrightarrow> write_drain d s = (Inr (), s\<lparr>log := log s @ [Sent d]\<rparr>)"
  by (simp add: write_drain_def)

lemma read_accepted:
  "inbox s = Data line # rest \<Longrightarrow> accepted line \<Longrightarrow>
   read_server_response s = (Inr (strip line), s\<lparr>inbox := rest, log := log s @ [Received]\<rparr>)"
  by (simp add: read_server_response_def classify_response_strip)

lemma read_rejected:
  "inbox s = Data line # rest \<Longrightarrow> \<not> accepted line \<Longrightarrow>
   read_server_response s = (Inl (server_error line), s\<lparr>inbox := rest, log := log s @ [Received]\<rparr>)"
  by (simp add: read_server_response_def classify_response_strip)

lemma await_accepted [simp]:
  "inbox s = Data line # rest \<Longrightarrow> accepted line \<Longrightarrow>
   await_response s = (Inr (), s\<lparr>inbox := rest, log := log s @ [Received]\<rparr>)"
  by (simp add: await_response_def bind_def read_accepted done_io_def)

lemma await_rejected [simp]:
  "inbox s = Data line # rest \<Longrightarrow> \<not> accepted line \<Longrightarrow>
   await_response s = (Inl (server_error line), s\<lparr>inbox := rest, log := log s @ [Received]\<rparr>)"
  by (simp add: await_response_def bind_def read_rejected)

lemma tagged_accepted [simp]:
  "inbox s = Data line # rest \<Longrightarrow> accepted line \<Longrightarrow>
   tagged_response n s = (Inr (), s\<lparr>inbox := rest, log := log s @ [Received]\<rparr>)"
  by (simp add: tagged_response_def)

lemma tagged_rejected [simp]:
  "inbox s = Data line # rest \<Longrightarrow> \<not> accepted line \<Longrightarrow>
   tagged_response n s =
     (Inl (server_error line), s\<lparr>inbox := rest, log := log s @ [Received], error_type := n\<rparr>)"
  by (simp add: tagged_response_def server_error_def)

subsection \<open>Sequencing and the phases of the session\<close>

lemma run_all_append:
  "run_all (ms @ ns) = bind (run_all ms) (\<lambda>_. run_all ns)"
proof (induction ms)
  case Nil
  show ?case by (simp add: bind_def done_io_def fun_eq_iff)
next
  case (Cons m ms)
  show ?case
    by (simp add: Cons.IH bind_def fun_eq_iff split: prod.splits sum.splits)
qed

lemma rcpt_to_all_accepted:
  "wfault s = None \<Longrightarrow> inbox s = map Data oks @ rest \<Longrightarrow> length oks = length rs \<Longrightarrow>
   \<forall>l \<in> set oks. accepted l \<Longrightarrow>
   rcpt_to_all rs s = (Inr (), s\<lparr>inbox := rest, log := log s @ rcpt_events rs\<rparr>)"
proof (induction rs arbitrary: s oks)
  case Nil
  then show ?case by (simp add: done_io_def rcpt_events_def)
next
  case (Cons r rs)
  then obtain l ls where oks: "oks = l # ls" by (cases oks) auto
  let ?s1 = "s\<lparr>inbox := map Data ls @ rest,
                log := log s @ [Sent (encode (''RCPT TO:'' @ r @ CRLF)), Received]\<rparr>"
  have step: "rcpt_to_all (r # rs) s = rcpt_to_all rs ?s1"
    using Cons.prems oks by (simp add: bind_def done_io_def split: prod.splits sum.splits)
  have "rcpt_to_all rs ?s1 = (Inr (), ?s1\<lparr>inbox := rest, log := log ?s1 @ rcpt_events rs\<rparr>)"
    using Cons.prems oks by (intro Cons.IH[where oks = ls]) auto
  then show ?case
    using step by (simp add: rcpt_events_def)
qed

lemma run_all_Cons_ok: "m s = (Inr (), s1) \<Longrightarrow> run_all (m # ms) s = run_all ms s1"
  by (simp add: bind_def)

lemma run_all_Cons_raise: "m s = (Inl e, s1) \<Longrightarrow> run_all (m # ms) s = (Inl e, s1)"
  by (simp add: bind_def)

lemma run_all_append_ok: "run_all ms s = (Inr (), s1) \<Longrightarrow> run_all (ms @ ns) s = run_all ns s1"
  by (simp add: run_all_append bind_def)

lemma contains_append_left: "contains p ys \<Longrightarrow> contains p (xs @ ys)"
  by (induction xs) auto

lemma server_error_contains:
  "contains p (strip line) \<Longrightarrow> contains p (''Error del servidor: '' @ strip line)"
  by (rule contains_append_left)

lemma recipients_valid_iff: "recipients_valid rs \<longleftrightarrow> (\<forall>r \<in> set rs. validate_email_address r)"
  by (induction rs) auto

lemma mail_from_accepted:
  "wfault s = None \<Longrightarrow> inbox s = Data line # rest \<Longrightarrow> accepted line \<Longrightarrow>
   mail_from sender s =
     (Inr (), s\<lparr>inbox := rest,
                log := log s @ [Sent (encode (''MAIL FROM:'' @ sender @ CRLF)), Received]\<rparr>)"
  by (simp add: mail_from_def bind_def done_io_def)

lemma mail_from_rejected:
  "wfault s = None \<Longrightarrow> inbox s = Data line # rest \<Longrightarrow> \<not> accepted line \<Longrightarrow>
   mail_from sender s =
     (Inl (server_error line),
      s\<lparr>inbox := rest,
        log := log s @ [Sent (encode (''MAIL FROM:'' @ sender @ CRLF)), Received],
        error_type := 1\<rparr>)"
  by (simp add: mail_from_def bind_def done_io_def)

lemma closing_accepted:
  "wfault s = None \<Longrightarrow> inbox s = Data d # Data c # Data q # rest \<Longrightarrow>
   accepted d \<Longrightarrow> accepted c \<Longrightarrow> accepted q \<Longrightarrow>
   run_all (closing_steps content) s =
     (Inr (), s\<lparr>inbox := rest,
                log := log s @ [Sent (''DATA'' @ CRLF), Received,
                                Sent (encode content @ CRLF @ ''.'' @ CRLF), Received,
                                Sent (''QUIT'' @ CRLF), Received]\<rparr>)"
  by (simp add: closing_steps_def bind_def done_io_def)

lemma auth_unsupported:
  "wfault s = None \<Longrightarrow> inbox s = Data a # rest \<Longrightarrow> \<not> accepted a \<Longrightarrow>
   contains ''502'' (strip a) \<Longrightarrow>
   authenticate sender pw s =
     (Inr (), s\<lparr>inbox := rest, log := log s @ [Sent (''AUTH PLAIN'' @ CRLF), Received]\<rparr>)"
  by (simp add: authenticate_def auth_attempt_def bind_def read_rejected server_error_def
      server_error_contains)

lemma opening_unsupported:
  "can_connect s \<Longrightarrow> wfault s = None \<Longrightarrow> inbox s = Data g # Data e # Data a # rest \<Longrightarrow>
   accepted g \<Longrightarrow> accepted e \<Longrightarrow> \<not> accepted a \<Longrightarrow> contains ''502'' (strip a) \<Longrightarrow>
   run_all (opening_steps sender pw) s =
     (Inr (), s\<lparr>inbox := rest,
                log := log s @ [Opened, Received, Sent (''EHLO localhost'' @ CRLF), Received,
                                Sent (''AUTH PLAIN'' @ CRLF), Received]\<rparr>)"
  by (simp add: opening_steps_def bind_def open_connection_def auth_unsupported done_io_def)

lemma rcpt_events_snoc:
  "rcpt_events (r # rs) = [Sent (encode (''RCPT TO:'' @ r @ CRLF)), Received] @ rcpt_events rs"
  by (simp add: rcpt_events_def)

lemma rcpt_to_all_rejected:
  "wfault s = None \<Longrightarrow> inbox s = map Data oks @ Data line # rest \<Longrightarrow>
   length oks = length pre \<Longrightarrow> \<forall>l \<in> set oks. accepted l \<Longrightarrow> \<not> accepted line \<Longrightarrow>
   rcpt_to_all (pre @ r # post) s =
     (Inl (server_error line),
      s\<lparr>inbox := rest, log := log s @ rcpt_events (pre @ [r]), error_type := 2\<rparr>)"
proof (induction pre arbitrary: s oks)
  case Nil
  then show ?case by (simp add: bind_def rcpt_events_def)
next
  case (Cons p pre)
  then obtain l ls where oks: "oks = l # ls" by (cases oks) auto
  let ?s1 = "s\<lparr>inbox := map Data ls @ Data line # rest,
                log := log s @ [Sent (encode (''RCPT TO:'' @ p @ CRLF)), Received]\<rparr>"
  have step: "rcpt_to_all ((p # pre) @ r # post) s = rcpt_to_all (pre @ r # post) ?s1"
    using Cons.prems oks by (simp add: bind_def done_io_def split: prod.splits sum.splits)
  have "rcpt_to_all (pre @ r # post) ?s1 =
          (Inl (server_error line),
           ?s1\<lparr>inbox := rest, log := log ?s1 @ rcpt_events (pre @ [r]), error_type := 2\<rparr>)"
    using Cons.prems oks by (intro Cons.IH[where oks = ls]) auto
  then show ?case
    using step by (simp add: rcpt_events_snoc)
qed

subsection \<open>Address checks and response classification\<close>

text \<open>
  Claim C1. \<open>send_email\<close> checks the addresses before any transport operation. If the sender
  fails the validator the call returns \<open>(False, 1)\<close>; if the sender passes and some recipient
  fails, with every recipient before it passing, the call returns \<open>(False, 2)\<close>. In both cases
  the state is returned as it was given, so nothing has been added to the log: no connection
  was opened, and nothing was written or read.
\<close>

theorem checks_before_io:
  "(\<not> validate_email_address sender \<longrightarrow>
      send_email sender pw rs subj body hdrs date s = ((False, 1), s))
   \<and> (validate_email_address sender \<and> rs = pre @ r # post
        \<and> (\<forall>x \<in> set pre. validate_email_address x) \<and> \<not> validate_email_address r \<longrightarrow>
      send_email sender pw rs subj body hdrs date s = ((False, 2), s))"
  by (auto simp: send_email_def recipients_valid_iff)

text \<open>
  Claim C4. For a response that decodes to \<open>line\<close>, \<open>read_server_response\<close> raises
  \<open>SMTPClientError\<close> exactly when the stripped line does not begin with \<open>2\<close> or \<open>3\<close> (the empty
  line included: its one-character prefix is empty). The error then carries the stripped line
  after the fixed prefix, and otherwise the stripped line is returned.
\<close>

theorem response_classification:
  "inbox s = Data line # rest \<Longrightarrow>
   ((\<exists>msg. fst (read_server_response s) = Inl (SMTPClientError msg))
      \<longleftrightarrow> \<not> (\<exists>cs. strip line = CHR ''2'' # cs \<or> strip line = CHR ''3'' # cs))
   \<and> (fst (read_server_response s) =
        (if \<exists>cs. strip line = CHR ''2'' # cs \<or> strip line = CHR ''3'' # cs
         then Inr (strip line)
         else Inl (SMTPClientError (''Error del servidor: '' @ strip line))))"
  by (cases "strip line") (auto simp: read_server_response_def classify_response_def)

subsection \<open>Failures at \<open>MAIL FROM\<close> and \<open>RCPT TO\<close>\<close>

text \<open>
  Claim C5. Let the addresses be valid. If the steps before \<open>MAIL FROM\<close> succeed and the
  response to \<open>MAIL FROM\<close> is not accepted, the outcome is \<open>(False, 1)\<close>. If the steps up to and
  including \<open>MAIL FROM\<close> succeed, the responses for the recipients \<open>pre\<close> are accepted and the
  response for the next recipient \<open>r\<close> is not, the outcome is \<open>(False, 2)\<close> and the log ends
  with the \<open>RCPT TO\<close> exchanges of \<open>pre\<close> and \<open>r\<close> only: nothing is written for the recipients
  \<open>post\<close> that come after \<open>r\<close>.
\<close>

theorem failing_step_tags:
  assumes "validate_email_address sender" and "recipients_valid rs"
  shows "(run_all (opening_steps sender pw) (s\<lparr>error_type := 0\<rparr>) = (Inr (), sa)
          \<and> wfault sa = None \<and> inbox sa = Data line # rest \<and> \<not> accepted line \<longrightarrow>
        send_email sender pw rs subj body hdrs date s =
          ((False, 1),
           sa\<lparr>inbox := rest,
              log := log sa @ [Sent (encode (''MAIL FROM:'' @ sender @ CRLF)), Received],
              error_type := 1\<rparr>))
     \<and> (run_all (opening_steps sender pw @ [mail_from sender]) (s\<lparr>error_type := 0\<rparr>) = (Inr (), sb)
          \<and> wfault sb = None \<and> rs = pre @ r # post
          \<and> inbox sb = map Data oks @ Data bad # remaining \<and> length oks = length pre
          \<and> (\<forall>l \<in> set oks. accepted l) \<and> \<not> accepted bad \<longrightarrow>
        send_email sender pw rs subj body hdrs date s =
          ((False, 2),
           sb\<lparr>inbox := remaining, log := log sb @ rcpt_events (pre @ [r]), error_type := 2\<rparr>))"
proof (intro conjI impI)
  assume h: "run_all (opening_steps sender pw) (s\<lparr>error_type := 0\<rparr>) = (Inr (), sa)
          \<and> wfault sa = None \<and> inbox sa = Data line # rest \<and> \<not> accepted line"
  let ?steps = "rcpt_to_all rs # closing_steps
                 (build_content sender rs subj body hdrs date)"
  have "run_all (opening_steps sender pw @ mail_from sender # ?steps) (s\<lparr>error_type := 0\<rparr>)
          = run_all (mail_from sender # ?steps) sa"
    using h by (simp add: run_all_append_ok)
  also have "\<dots> = (Inl (server_error line),
           sa\<lparr>inbox := rest,
              log := log sa @ [Sent (encode (''MAIL FROM:'' @ sender @ CRLF)), Received],
              error_type := 1\<rparr>)"
    using h by (intro run_all_Cons_raise mail_from_rejected) auto
  finally show "send_email sender pw rs subj body hdrs date s =
          ((False, 1),
           sa\<lparr>inbox := rest,
              log := log sa @ [Sent (encode (''MAIL FROM:'' @ sender @ CRLF)), Received],
              error_type := 1\<rparr>)"
    using assms by (simp add: send_email_def session_steps_def failure_type_def server_error_def)
next
  assume h: "run_all (opening_steps sender pw @ [mail_from sender]) (s\<lparr>error_type := 0\<rparr>) = (Inr (), sb)
          \<and> wfault sb = None \<and> rs = pre @ r # post
          \<and> inbox sb = map Data oks @ Data bad # remaining \<and> length oks = length pre
          \<and> (\<forall>l \<in> set oks. accepted l) \<and> \<not> accepted bad"
  let ?steps = "closing_steps (build_content sender rs subj body hdrs date)"
  have "run_all ((opening_steps sender pw @ [mail_from sender]) @ rcpt_to_all rs # ?steps)
          (s\<lparr>error_type := 0\<rparr>)
          = run_all (rcpt_to_all rs # ?steps) sb"
    using h by (intro run_all_append_ok) simp
  also have "\<dots> = (Inl (server_error bad),
           sb\<lparr>inbox := remaining, log := log sb @ rcpt_events (pre @ [r]), error_type := 2\<rparr>)"
    using h by (intro run_all_Cons_raise) (simp add: rcpt_to_all_rejected)
  finally show "send_email sender pw rs subj body hdrs date s =
          ((False, 2),
           sb\<lparr>inbox := remaining, log := log sb @ rcpt_events (pre @ [r]), error_type := 2\<rparr>)"
    using assms by (simp add: send_email_def session_steps_def failure_type_def server_error_def)
qed

subsection \<open>What every step adds to the log\<close>

lemma quietI:
  "(\<And>s. \<exists>evs. log (snd (m s)) = log s @ evs \<and> list_all wire_event evs) \<Longrightarrow> quiet m"
  by (simp add: quiet_def)

lemma quietD: "quiet m \<Longrightarrow> \<exists>evs. log (snd (m s)) = log s @ evs \<and> list_all wire_event evs"
  by (simp add: quiet_def)

lemma quiet_done: "quiet done_io"
  by (simp add: quiet_def done_io_def)

lemma quiet_bind:
  assumes "quiet m" and "\<And>a. quiet (f a)"
  shows "quiet (bind m f)"
proof (rule quietI)
  fix s
  obtain r s1 where ms: "m s = (r, s1)" by (cases "m s")
  from quietD[OF assms(1), of s] ms
  obtain evs where evs: "log s1 = log s @ evs" "list_all wire_event evs" by auto
  show "\<exists>evs. log (snd (bind m f s)) = log s @ evs \<and> list_all wire_event evs"
  proof (cases r)
    case (Inl e)
    then show ?thesis using ms evs by (auto simp: bind_def)
  next
    case (Inr a)
    from quietD[OF assms(2), of a s1]
    obtain evs' where "log (snd (f a s1)) = log s1 @ evs'" "list_all wire_event evs'" by auto
    then have "log (snd (bind m f s)) = log s @ (evs @ evs') \<and> list_all wire_event (evs @ evs')"
      using Inr ms evs by (simp add: bind_def)
    then show ?thesis by blast
  qed
qed

lemma quiet_run_all: "(\<And>m. m \<in> set ms \<Longrightarrow> quiet m) \<Longrightarrow> quiet (run_all ms)"
  by (induction ms) (auto intro: quiet_done quiet_bind)

lemma quiet_write_drain: "quiet (write_drain d)"
  by (rule quietI) (auto simp: write_drain_def wire_event_def split: option.splits nat.splits)

lemma quiet_read: "quiet read_server_response"
  by (rule quietI)
    (auto simp: read_server_response_def wire_event_def split: list.splits incoming.splits)

lemma quiet_await: "quiet await_response"
  unfolding await_response_def by (intro quiet_bind quiet_read quiet_done)

lemma snd_tagged: "log (snd (tagged_response n s)) = log (snd (await_response s))"
  by (auto simp: tagged_response_def split: prod.splits sum.splits exn.splits)

lemma quiet_tagged: "quiet (tagged_response n)"
  using quiet_await by (simp add: quiet_def snd_tagged)

lemma quiet_auth_attempt: "quiet (auth_attempt sender pw)"
  unfolding auth_attempt_def
  by (intro quiet_bind quiet_write_drain quiet_read)
    (auto intro!: quiet_bind quiet_done quiet_write_drain quiet_await)

lemma snd_authenticate: "snd (authenticate sender pw s) = snd (auth_attempt sender pw s)"
  by (auto simp: authenticate_def split: prod.splits sum.splits exn.splits)

lemma quiet_authenticate: "quiet (authenticate sender pw)"
  using quiet_auth_attempt by (simp add: quiet_def snd_authenticate)

lemma quiet_mail_from: "quiet (mail_from sender)"
  unfolding mail_from_def by (rule quiet_run_all) (auto intro: quiet_write_drain quiet_tagged)

lemma quiet_rcpt_to_all: "quiet (rcpt_to_all rs)"
proof (induction rs)
  case Nil
  show ?case by (simp add: quiet_done)
next
  case (Cons r rs)
  show ?case
    unfolding rcpt_to_all.simps
    by (rule quiet_run_all) (auto intro: quiet_write_drain quiet_tagged Cons.IH)
qed

lemma quiet_closing: "m \<in> set (closing_steps content) \<Longrightarrow> quiet m"
  by (auto simp: closing_steps_def intro: quiet_write_drain quiet_await)

lemma quiet_after_open:
  "quiet (run_all ([await_response, write_drain (''EHLO localhost'' @ CRLF), await_response,
                    authenticate sender pw, mail_from sender, rcpt_to_all rs]
                   @ closing_steps content))"
  by (rule quiet_run_all)
    (auto intro: quiet_write_drain quiet_await quiet_authenticate quiet_mail_from
       quiet_rcpt_to_all quiet_closing)

lemma session_steps_unfold:
  "session_steps sender pw rs content =
     open_connection #
       ([await_response, write_drain (''EHLO localhost'' @ CRLF), await_response,
         authenticate sender pw, mail_from sender, rcpt_to_all rs] @ closing_steps content)"
  by (simp add: session_steps_def opening_steps_def)

lemma session_log:
  "\<exists>evs. log (snd (run_all (session_steps sender pw rs content) s))
            = log s @ (if can_connect s then Opened else Refused) # evs
          \<and> list_all wire_event evs"
proof (cases "can_connect s")
  case False
  then show ?thesis
    by (simp add: session_steps_unfold bind_def open_connection_def)
next
  case True
  let ?s1 = "s\<lparr>log := log s @ [Opened]\<rparr>"
  let ?rest = "run_all ([await_response, write_drain (''EHLO localhost'' @ CRLF), await_response,
                    authenticate sender pw, mail_from sender, rcpt_to_all rs]
                   @ closing_steps content)"
  have "run_all (session_steps sender pw rs content) s = ?rest ?s1"
    using True by (simp add: session_steps_unfold bind_def open_connection_def)
  moreover from quietD[OF quiet_after_open, of sender pw rs content ?s1]
  obtain evs where "log (snd (?rest ?s1)) = log ?s1 @ evs" "list_all wire_event evs" by blast
  ultimately show ?thesis using True by auto
qed

subsection \<open>Where \<open>error_type\<close> is set\<close>

lemma settled_Inr [simp]: "settled (Inr a, s') \<longleftrightarrow> error_type s' = 0"
  by (simp add: settled_def)

lemma settled_SMTP [simp]:
  "settled (Inl (SMTPClientError msg), s') \<longleftrightarrow>
     error_type s' \<in> {0, 1, 2} \<and> (\<exists>text. msg = ''Error del servidor: '' @ text)"
  by (simp add: settled_def)

lemma settled_other [simp]:
  "(\<And>msg. e \<noteq> SMTPClientError msg) \<Longrightarrow> settled (Inl e, s') \<longleftrightarrow> error_type s' = 0"
  by (cases e) (auto simp: settled_def)

lemma settled_Inl_any:
  "settled (Inl e :: exn + 'a, s') \<Longrightarrow> settled (Inl e :: exn + 'b, s')"
  by (simp add: settled_def)

lemma taggingI: "(\<And>s. error_type s = 0 \<Longrightarrow> settled (m s)) \<Longrightarrow> tagging m"
  by (simp add: tagging_def)

lemma taggingD: "tagging m \<Longrightarrow> error_type s = 0 \<Longrightarrow> settled (m s)"
  by (simp add: tagging_def)

lemma tagging_done: "tagging done_io"
  by (simp add: tagging_def done_io_def)

lemma tagging_bind:
  assumes "tagging m" and "\<And>a. tagging (f a)"
  shows "tagging (bind m f)"
proof (rule taggingI)
  fix s :: session
  assume s: "error_type s = 0"
  obtain r s1 where ms: "m s = (r, s1)" by (cases "m s")
  have m_ok: "settled (r, s1)" using taggingD[OF assms(1) s] ms by simp
  show "settled (bind m f s)"
  proof (cases r)
    case (Inl e)
    then show ?thesis using ms m_ok by (auto simp: bind_def intro: settled_Inl_any)
  next
    case (Inr a)
    then have "error_type s1 = 0" using m_ok by simp
    then have "settled (f a s1)" by (rule taggingD[OF assms(2)])
    then show ?thesis using Inr ms by (simp add: bind_def)
  qed
qed

lemma tagging_run_all: "(\<And>m. m \<in> set ms \<Longrightarrow> tagging m) \<Longrightarrow> tagging (run_all ms)"
  by (induction ms) (auto intro: tagging_done tagging_bind)

lemma tagging_open: "tagging open_connection"
  by (rule taggingI) (simp add: open_connection_def)

lemma tagging_write_drain: "tagging (write_drain d)"
  by (rule taggingI) (simp add: write_drain_def split: option.splits nat.splits)

lemma tagging_read: "tagging read_server_response"
  by (rule taggingI)
    (auto simp: read_server_response_def classify_response_def split: list.splits incoming.splits)

lemma tagging_await: "tagging await_response"
  unfolding await_response_def by (intro tagging_bind tagging_read tagging_done)

lemma tagging_tagged: "n = 1 \<or> n = 2 \<Longrightarrow> tagging (tagged_response n)"
proof (rule taggingI)
  fix s :: session
  assume n: "n = 1 \<or> n = 2" and s: "error_type s = 0"
  obtain r s1 where a: "await_response s = (r, s1)" by (cases "await_response s")
  have "settled (r, s1)" using taggingD[OF tagging_await s] a by simp
  then show "settled (tagged_response n s)"
    using a n by (cases r; cases "projl r") (auto simp: tagged_response_def settled_def)
qed

lemma tagging_auth_attempt: "tagging (auth_attempt sender pw)"
  unfolding auth_attempt_def
  by (intro tagging_bind tagging_write_drain tagging_read)
    (auto intro!: tagging_bind tagging_done tagging_write_drain tagging_await)

lemma error_type_write_drain: "write_drain d s = (r, s') \<Longrightarrow> error_type s' = error_type s"
  by (auto simp: write_drain_def split: option.splits nat.splits)

lemma error_type_read: "read_server_response s = (r, s') \<Longrightarrow> error_type s' = error_type s"
  by (auto simp: read_server_response_def split: list.splits incoming.splits)

lemma error_type_await: "await_response s = (r, s') \<Longrightarrow> error_type s' = error_type s"
  by (auto simp: await_response_def bind_def done_io_def split: prod.splits sum.splits
      dest: error_type_read)

lemma error_type_auth_attempt:
  "auth_attempt sender pw s = (r, s') \<Longrightarrow> error_type s' = error_type s"
  by (auto simp: auth_attempt_def bind_def done_io_def split: prod.splits sum.splits if_splits
      dest!: error_type_write_drain error_type_read error_type_await)

lemma tagging_authenticate: "tagging (authenticate sender pw)"
proof (rule taggingI)
  fix s :: session
  assume s: "error_type s = 0"
  obtain r s1 where a: "auth_attempt sender pw s = (r, s1)" by (cases "auth_attempt sender pw s")
  have "settled (r, s1)" using taggingD[OF tagging_auth_attempt[of sender pw] s] a by simp
  moreover have "error_type s1 = 0" using error_type_auth_attempt[OF a] s by simp
  ultimately show "settled (authenticate sender pw s)"
    using a by (cases r; cases "projl r") (auto simp: authenticate_def settled_def)
qed

lemma tagging_mail_from: "tagging (mail_from sender)"
  unfolding mail_from_def by (rule tagging_run_all) (auto intro: tagging_write_drain tagging_tagged)

lemma tagging_rcpt_to_all: "tagging (rcpt_to_all rs)"
proof (induction rs)
  case Nil
  show ?case by (simp add: tagging_done)
next
  case (Cons r rs)
  show ?case
    unfolding rcpt_to_all.simps
    by (rule tagging_run_all) (auto intro: tagging_write_drain tagging_tagged Cons.IH)
qed

lemma tagging_session: "tagging (run_all (session_steps sender pw rs content))"
  by (rule tagging_run_all)
    (auto simp: session_steps_def opening_steps_def closing_steps_def
      intro: tagging_open tagging_write_drain tagging_await tagging_authenticate
        tagging_mail_from tagging_rcpt_to_all)

lemma session_settled:
  "settled (run_all (session_steps sender pw rs content) (s\<lparr>error_type := 0\<rparr>))"
  by (rule taggingD[OF tagging_session]) simp

lemma contains_501_text [simp]:
  "contains ''501'' (''Error del servidor: '' @ text) = contains ''501'' text"
  by simp

lemma contains_550_text [simp]:
  "contains ''550'' (''Error del servidor: '' @ text) = contains ''550'' text"
  by simp

subsection \<open>Classification of a failed session\<close>

text \<open>
  Claim C6. Let the addresses be valid and let the command sequence end with the exception
  \<open>e\<close> in state \<open>s'\<close>. If \<open>e\<close> is a protocol error, its message is the fixed prefix followed by
  the response text, the tag \<open>error_type s'\<close> is 0, 1 or 2, and the outcome is the tag when it
  is 1 or 2 (set at \<open>MAIL FROM\<close> or \<open>RCPT TO\<close>); with no tag the outcome is 1 when the response
  text contains \<open>501\<close>, else 2 when it contains \<open>550\<close>, else 0. If \<open>e\<close> is any other exception
  the outcome is 3.
\<close>

theorem failure_aggregation:
  assumes "validate_email_address sender" and "recipients_valid rs"
    and "run_all (session_steps sender pw rs (build_content sender rs subj body hdrs date))
           (s\<lparr>error_type := 0\<rparr>) = (Inl e, s')"
  shows "(\<forall>msg. e = SMTPClientError msg \<longrightarrow>
            error_type s' \<in> {0, 1, 2}
            \<and> (\<exists>text. msg = ''Error del servidor: '' @ text
                 \<and> fst (send_email sender pw rs subj body hdrs date s) =
                     (False,
                      if error_type s' \<noteq> 0 then error_type s'
                      else if contains ''501'' text then 1
                      else if contains ''550'' text then 2
                      else 0)))
       \<and> ((\<forall>msg. e \<noteq> SMTPClientError msg) \<longrightarrow>
            fst (send_email sender pw rs subj body hdrs date s) = (False, 3))"
proof (intro conjI allI impI)
  fix msg
  assume e: "e = SMTPClientError msg"
  have "settled (Inl (SMTPClientError msg) :: exn + unit, s')"
    using session_settled[of sender pw rs "build_content sender rs subj body hdrs date" s]
      assms(3) e by simp
  then obtain raw where t: "error_type s' \<in> {0, 1, 2}" "msg = ''Error del servidor: '' @ raw"
    by auto
  show "error_type s' \<in> {0, 1, 2}" by (rule t(1))
  have "fst (send_email sender pw rs subj body hdrs date s) =
          (False, failure_type (SMTPClientError msg) (error_type s'))"
    using assms e by (simp add: send_email_def)
  then have "fst (send_email sender pw rs subj body hdrs date s) =
                     (False,
                      if error_type s' \<noteq> 0 then error_type s'
                      else if contains ''501'' raw then 1
                      else if contains ''550'' raw then 2
                      else 0)"
    using t(2) by (simp add: failure_type_def)
  then show "\<exists>text. msg = ''Error del servidor: '' @ text
                 \<and> fst (send_email sender pw rs subj body hdrs date s) =
                     (False,
                      if error_type s' \<noteq> 0 then error_type s'
                      else if contains ''501'' text then 1
                      else if contains ''550'' text then 2
                      else 0)"
    using t(2) by blast
next
  assume "\<forall>msg. e \<noteq> SMTPClientError msg"
  then show "fst (send_email sender pw rs subj body hdrs date s) = (False, 3)"
    using assms by (cases e) (simp_all add: send_email_def failure_type_def)
qed

text \<open>
  Claim C7. Let the addresses be valid, the connection succeed and no write fail. If the
  greeting and the \<open>EHLO\<close> response are accepted, the response to \<open>AUTH PLAIN\<close> is a failure
  whose text contains \<open>502\<close>, and the responses to \<open>MAIL FROM\<close>, to each \<open>RCPT TO\<close>, to
  \<open>DATA\<close>, to the content and to \<open>QUIT\<close> are accepted, then \<open>send_email\<close> returns \<open>(True, 0)\<close>; the
  log shows that no credential line was written between \<open>AUTH PLAIN\<close> and \<open>MAIL FROM\<close>.
\<close>

theorem unsupported_auth_is_skipped:
  assumes "validate_email_address sender" and "recipients_valid rs"
    and "can_connect s" and "wfault s = None"
    and "inbox s = Data g # Data e # Data a # Data m # map Data oks @ Data d # Data c # Data q # rest"
    and "accepted g" and "accepted e" and "accepted m" and "\<forall>l \<in> set oks. accepted l"
    and "length oks = length rs" and "accepted d" and "accepted c" and "accepted q"
    and "\<not> accepted a" and "contains ''502'' (strip a)"
  shows "send_email sender pw rs subj body hdrs date s =
           ((True, 0),
            s\<lparr>inbox := rest,
              log := log s @ [Opened, Received, Sent (''EHLO localhost'' @ CRLF), Received,
                              Sent (''AUTH PLAIN'' @ CRLF), Received,
                              Sent (encode (''MAIL FROM:'' @ sender @ CRLF)), Received]
                     @ rcpt_events rs
                     @ [Sent (''DATA'' @ CRLF), Received,
                        Sent (encode (build_content sender rs subj body hdrs date)
                              @ CRLF @ ''.'' @ CRLF), Received,
                        Sent (''QUIT'' @ CRLF), Received],
              error_type := 0\<rparr>)"
proof -
  let ?content = "build_content sender rs subj body hdrs date"
  let ?s0 = "s\<lparr>error_type := 0\<rparr>"
  let ?l1 = "log s @ [Opened, Received, Sent (''EHLO localhost'' @ CRLF), Received,
                      Sent (''AUTH PLAIN'' @ CRLF), Received]"
  let ?s1 = "?s0\<lparr>inbox := Data m # map Data oks @ Data d # Data c # Data q # rest, log := ?l1\<rparr>"
  let ?l2 = "?l1 @ [Sent (encode (''MAIL FROM:'' @ sender @ CRLF)), Received]"
  let ?s2 = "?s1\<lparr>inbox := map Data oks @ Data d # Data c # Data q # rest, log := ?l2\<rparr>"
  let ?s3 = "?s2\<lparr>inbox := Data d # Data c # Data q # rest, log := ?l2 @ rcpt_events rs\<rparr>"
  let ?s4 = "?s3\<lparr>inbox := rest,
                 log := ?l2 @ rcpt_events rs
                        @ [Sent (''DATA'' @ CRLF), Received,
                           Sent (encode ?content @ CRLF @ ''.'' @ CRLF), Received,
                           Sent (''QUIT'' @ CRLF), Received]\<rparr>"
  have o: "run_all (opening_steps sender pw) ?s0 = (Inr (), ?s1)"
    using assms by (subst opening_unsupported[where g = g and e = e and a = a]) auto
  have m: "mail_from sender ?s1 = (Inr (), ?s2)"
    using assms by (subst mail_from_accepted[where line = m]) auto
  have r: "rcpt_to_all rs ?s2 = (Inr (), ?s3)"
    using assms by (subst rcpt_to_all_accepted[where oks = oks]) auto
  have c: "run_all (closing_steps ?content) ?s3 = (Inr (), ?s4)"
    using assms by (subst closing_accepted[where d = d and c = c and q = q]) auto
  have "run_all (session_steps sender pw rs ?content) ?s0
          = run_all ([mail_from sender, rcpt_to_all rs] @ closing_steps ?content) ?s1"
    unfolding session_steps_def by (rule run_all_append_ok[OF o])
  also have "\<dots> = run_all (rcpt_to_all rs # closing_steps ?content) ?s2"
    using m by (simp add: bind_def)
  also have "\<dots> = run_all (closing_steps ?content) ?s3"
    using r by (simp add: bind_def)
  finally have "run_all (session_steps sender pw rs ?content) ?s0 = (Inr (), ?s4)"
    using c by simp
  then show ?thesis
    using assms(1,2) by (simp add: send_email_def)
qed

lemma snd_send_email:
  "validate_email_address sender \<Longrightarrow> recipients_valid rs \<Longrightarrow>
   snd (send_email sender pw rs subj body hdrs date s) =
     snd (run_all (session_steps sender pw rs (build_content sender rs subj body hdrs date))
            (s\<lparr>error_type := 0\<rparr>))"
  by (simp add: send_email_def split: prod.splits sum.splits)

lemma wire_event_not_connect:
  "list_all wire_event evs \<Longrightarrow>
   Opened \<notin> set evs \<and> Refused \<notin> set evs \<and> Closed \<notin> set evs"
  by (auto simp: list_all_iff wire_event_def)

subsection \<open>Connections and authentication attempts\<close>

text \<open>
  Claim C2, and where the code departs from it. With valid addresses the first transport
  operation of \<open>send_email\<close> is its one connection attempt, which opens the connection when
  the transport accepts it; everything the call does afterwards is a write or a read. So
  exactly one connection is opened, as the claim says, but no exit path closes it: success,
  protocol failure and transport failure all return with the connection open. With an
  invalid address the log is unchanged.
\<close>

theorem connection_never_closed:
  "(validate_email_address sender \<and> recipients_valid rs \<longrightarrow>
      (\<exists>evs. log (snd (send_email sender pw rs subj body hdrs date s))
                = log s @ (if can_connect s then Opened else Refused) # evs
              \<and> Opened \<notin> set evs \<and> Refused \<notin> set evs \<and> Closed \<notin> set evs))
   \<and> (\<not> (validate_email_address sender \<and> recipients_valid rs) \<longrightarrow>
        log (snd (send_email sender pw rs subj body hdrs date s)) = log s)"
proof (intro conjI impI)
  assume v: "validate_email_address sender \<and> recipients_valid rs"
  from session_log[of sender pw rs "build_content sender rs subj body hdrs date"
      "s\<lparr>error_type := 0\<rparr>"]
  obtain evs where
    "log (snd (run_all (session_steps sender pw rs (build_content sender rs subj body hdrs date))
            (s\<lparr>error_type := 0\<rparr>)))
       = log s @ (if can_connect s then Opened else Refused) # evs"
    "list_all wire_event evs"
    by auto
  then show "\<exists>evs. log (snd (send_email sender pw rs subj body hdrs date s))
                = log s @ (if can_connect s then Opened else Refused) # evs
              \<and> Opened \<notin> set evs \<and> Refused \<notin> set evs \<and> Closed \<notin> set evs"
    using v wire_event_not_connect by (auto simp: snd_send_email)
next
  assume "\<not> (validate_email_address sender \<and> recipients_valid rs)"
  then show "log (snd (send_email sender pw rs subj body hdrs date s)) = log s"
    by (auto simp: send_email_def)
qed

lemma await_log: "log (snd (await_response s)) = log s @ [Received]"
  by (simp add: await_response_def bind_def done_io_def read_server_response_def
      split: list.splits incoming.splits prod.splits sum.splits)

lemma startswith_334_accepted: "startswith (strip a) ''334'' \<Longrightarrow> accepted a"
  by (cases "strip a") (auto simp: accepted_def)

lemma authenticate_log:
  assumes "wfault s = None" and "inbox s = Data a # rest"
  shows "log (snd (authenticate sender pw s)) =
           log s @ [Sent (''AUTH PLAIN'' @ CRLF), Received]
           @ (if startswith (strip a) ''334''
              then [Sent (b64encode (encode (NUL # sender @ NUL # pw)) @ CRLF), Received]
              else [])"
proof (cases "accepted a")
  case False
  then have "\<not> startswith (strip a) ''334''" using startswith_334_accepted by blast
  then show ?thesis
    using assms False by (simp add: snd_authenticate auth_attempt_def bind_def read_rejected)
next
  case True
  let ?s1 = "s\<lparr>log := log s @ [Sent (''AUTH PLAIN'' @ CRLF)], inbox := rest,
               log := log s @ [Sent (''AUTH PLAIN'' @ CRLF), Received]\<rparr>"
  show ?thesis
  proof (cases "startswith (strip a) ''334''")
    case False
    then show ?thesis
      using assms True
      by (simp add: snd_authenticate auth_attempt_def bind_def read_accepted done_io_def)
  next
    case s334: True
    let ?creds = "b64encode (auth_credentials sender pw) @ CRLF"
    let ?s2 = "s\<lparr>inbox := rest,
                  log := log s @ [Sent (''AUTH PLAIN'' @ CRLF), Received, Sent ?creds]\<rparr>"
    have "snd (auth_attempt sender pw s) = snd (await_response ?s2)"
      using assms True s334
      by (simp add: auth_attempt_def bind_def read_accepted done_io_def
          split: prod.splits sum.splits)
    then show ?thesis
      using s334 by (simp add: snd_authenticate await_log auth_credentials_def)
  qed
qed

lemma log_after_bind:
  assumes "quiet n"
  shows "\<exists>evs. log (snd (bind m (\<lambda>_. n) s)) = log (snd (m s)) @ evs"
proof -
  obtain r s1 where ms: "m s = (r, s1)" by (cases "m s")
  show ?thesis
  proof (cases r)
    case (Inl e)
    then show ?thesis using ms by (simp add: bind_def)
  next
    case (Inr a)
    from quietD[OF assms, of s1] obtain evs where "log (snd (n s1)) = log s1 @ evs" by blast
    then show ?thesis using Inr ms by (auto simp: bind_def)
  qed
qed

text \<open>
  Claim C3, as amended. Authentication is attempted whatever the password is, the empty
  password included: with valid addresses, a successful connection, no write failure and an
  accepted greeting and \<open>EHLO\<close> response, \<open>AUTH PLAIN\<close> is written after \<open>EHLO\<close>. If the
  response to it begins with \<open>334\<close>, the line written next is the base64 encoding of the
  bytes of NUL, sender address, NUL, password.
\<close>

theorem auth_always_attempted:
  assumes "validate_email_address sender" and "recipients_valid rs"
    and "can_connect s" and "wfault s = None"
    and "inbox s = Data g # Data e # Data a # rest" and "accepted g" and "accepted e"
  shows "\<exists>evs. log (snd (send_email sender pw rs subj body hdrs date s)) =
           log s @ [Opened, Received, Sent (''EHLO localhost'' @ CRLF), Received,
                    Sent (''AUTH PLAIN'' @ CRLF), Received]
           @ (if startswith (strip a) ''334''
              then [Sent (b64encode (encode (NUL # sender @ NUL # pw)) @ CRLF)] else [])
           @ evs"
proof -
  let ?content = "build_content sender rs subj body hdrs date"
  let ?s1 = "s\<lparr>error_type := 0, inbox := Data a # rest,
               log := log s @ [Opened, Received, Sent (''EHLO localhost'' @ CRLF), Received]\<rparr>"
  let ?tail = "run_all ([mail_from sender, rcpt_to_all rs] @ closing_steps ?content)"
  have q: "quiet ?tail"
    by (rule quiet_run_all) (auto intro: quiet_mail_from quiet_rcpt_to_all quiet_closing)
  have "run_all (session_steps sender pw rs ?content) (s\<lparr>error_type := 0\<rparr>)
          = bind (authenticate sender pw) (\<lambda>_. ?tail) ?s1"
    using assms(3-7)
    by (simp add: session_steps_def opening_steps_def bind_def open_connection_def)
  moreover from log_after_bind[OF q, of "authenticate sender pw" ?s1]
  obtain evs where "log (snd (bind (authenticate sender pw) (\<lambda>_. ?tail) ?s1))
                      = log (snd (authenticate sender pw ?s1)) @ evs"
    by blast
  ultimately have "log (snd (send_email sender pw rs subj body hdrs date s))
                     = log (snd (authenticate sender pw ?s1)) @ evs"
    using assms(1,2) by (simp add: snd_send_email)
  also have "log (snd (authenticate sender pw ?s1)) =
           log ?s1 @ [Sent (''AUTH PLAIN'' @ CRLF), Received]
           @ (if startswith (strip a) ''334''
              then [Sent (b64encode (encode (NUL # sender @ NUL # pw)) @ CRLF), Received]
              else [])"
    using assms(4) by (intro authenticate_log[where rest = rest]) auto
  finally show ?thesis
    by (cases "startswith (strip a) ''334''") auto
qed

lemma outcome_range:
  "snd (fst (send_email sender pw rs subj body hdrs date s)) \<in> {0, 1, 2, 3}
   \<and> (fst (fst (send_email sender pw rs subj body hdrs date s)) \<longrightarrow>
        snd (fst (send_email sender pw rs subj body hdrs date s)) = 0)"
proof (cases "validate_email_address sender \<and> recipients_valid rs")
  case False
  then show ?thesis by (auto simp: send_email_def)
next
  case True
  let ?run = "run_all (session_steps sender pw rs (build_content sender rs subj body hdrs date))
                (s\<lparr>error_type := 0\<rparr>)"
  obtain r s' where run: "?run = (r, s')" by (cases ?run)
  have st: "settled (r, s')"
    using session_settled[of sender pw rs "build_content sender rs subj body hdrs date" s] run
    by simp
  show ?thesis
  proof (cases r)
    case (Inr u)
    then show ?thesis using True run st by (simp add: send_email_def)
  next
    case (Inl e)
    then show ?thesis
      using True run st by (cases e) (auto simp: send_email_def failure_type_def settled_def)
  qed
qed

subsection \<open>The caller-facing boundary\<close>

text \<open>
  Claim C9, as amended. Success gives \<open>(250, Message accepted for delivery)\<close>; a failure of
  type 1 gives \<open>(501, Invalid sender address)\<close>, of type 2 \<open>(550, Invalid recipient address)\<close>,
  of type 3 \<open>(503, Error de protocolo SMTP)\<close> and of type 0
  \<open>(550, Error desconocido del servidor)\<close>. \<open>(550, Unknown error)\<close> is the fallback for an error
  type outside 0 to 3, which \<open>send_email\<close> never returns.
\<close>

theorem outcome_table:
  "main_output (True, et) = (250, ''Message accepted for delivery'')
   \<and> main_output (False, 1) = (501, ''Invalid sender address'')
   \<and> main_output (False, 2) = (550, ''Invalid recipient address'')
   \<and> main_output (False, 3) = (503, ''Error de protocolo SMTP'')
   \<and> main_output (False, 0) = (550, ''Error desconocido del servidor'')
   \<and> (et \<notin> {0, 1, 2, 3} \<longrightarrow> main_output (False, et) = (550, ''Unknown error''))
   \<and> snd (main_output (fst (send_email sender pw rs subj body hdrs date s))) \<noteq> ''Unknown error''"
proof -
  obtain sent k where r: "fst (send_email sender pw rs subj body hdrs date s) = (sent, k)"
    by (cases "fst (send_email sender pw rs subj body hdrs date s)")
  then have "k \<in> {0, 1, 2, 3}"
    using outcome_range[of sender pw rs subj body hdrs date s] by simp
  then have "snd (main_output (sent, k)) \<noteq> ''Unknown error''"
    by (auto simp: main_output_def get_or_def status_codes_def error_messages_def)
  then show ?thesis
    using r by (simp add: main_output_def get_or_def status_codes_def error_messages_def)
qed

text \<open>
  The messages for the types 3 and 0 are not \<open>SMTP protocol error\<close> and \<open>Unknown error\<close>.
\<close>

theorem boundary_messages_counterexample:
  "main_output (False, 3) \<noteq> (503, ''SMTP protocol error'')
   \<and> main_output (False, 0) \<noteq> (550, ''Unknown error'')"
  by (simp add: main_output_def get_or_def status_codes_def error_messages_def)

subsection \<open>The client against the toy server\<close>















subsection \<open>The language of the address pattern\<close>

lemma nullable_denotes: "nullable r \<longleftrightarrow> denotes r []"
proof (induction r)
  case (Star r)
  show ?case by (auto intro: exI[of _ "[]"])
qed auto

lemma star_unroll:
  "denotes (Star r) (c # w) \<longleftrightarrow> (\<exists>u v. w = u @ v \<and> denotes r (c # u) \<and> denotes (Star r) v)"
proof
  assume "denotes (Star r) (c # w)"
  then obtain ws where ws: "c # w = concat ws" "\<forall>x \<in> set ws. denotes r x" by auto
  then show "\<exists>u v. w = u @ v \<and> denotes r (c # u) \<and> denotes (Star r) v"
  proof (induction ws)
    case Nil
    then show ?case by simp
  next
    case (Cons x xs)
    show ?case
    proof (cases x)
      case Nil
      then show ?thesis using Cons by simp
    next
      case (Cons d u)
      then have "d = c" "w = u @ concat xs" using Cons.prems(1) by auto
      moreover have "denotes r (c # u)" using Cons Cons.prems(2) \<open>d = c\<close> by simp
      moreover have "denotes (Star r) (concat xs)" using Cons.prems(2) by auto
      ultimately show ?thesis by blast
    qed
  qed
next
  assume "\<exists>u v. w = u @ v \<and> denotes r (c # u) \<and> denotes (Star r) v"
  then obtain u vs where "w = u @ concat vs" "denotes r (c # u)" "\<forall>x \<in> set vs. denotes r x"
    by auto
  then have "c # w = concat ((c # u) # vs) \<and> (\<forall>x \<in> set ((c # u) # vs). denotes r x)"
    by simp
  then show "denotes (Star r) (c # w)"
    unfolding denotes.simps by blast
qed

lemma deriv_denotes: "denotes (deriv c r) w \<longleftrightarrow> denotes r (c # w)"
proof (induction r arbitrary: w)
  case (Seq r s)
  have "denotes (Seq r s) (c # w) \<longleftrightarrow>
          (denotes r [] \<and> denotes s (c # w))
          \<or> (\<exists>u v. w = u @ v \<and> denotes r (c # u) \<and> denotes s v)"
    by (auto simp: Cons_eq_append_conv)
  then show ?case
    using Seq by (auto simp: nullable_denotes)
next
  case (Star r)
  then show ?case by (simp add: star_unroll del: denotes.simps(6))
qed auto

lemma matches_denotes: "matches r w \<longleftrightarrow> denotes r w"
  by (induction w arbitrary: r) (simp_all add: nullable_denotes deriv_denotes)

lemma star_atom: "denotes (Star (Atom p)) w \<longleftrightarrow> list_all p w"
proof
  assume "denotes (Star (Atom p)) w"
  then obtain ws where "w = concat ws" "\<forall>x \<in> set ws. \<exists>c. x = [c] \<and> p c" by auto
  then show "list_all p w"
    by (induction ws arbitrary: w) auto
next
  assume "list_all p w"
  then have "w = concat (map (\<lambda>c. [c]) w) \<and> (\<forall>x \<in> set (map (\<lambda>c. [c]) w). \<exists>c. x = [c] \<and> p c)"
    by (induction w) (auto simp: list_all_iff)
  then show "denotes (Star (Atom p)) w"
    unfolding denotes.simps by blast
qed

lemma seq_atom:
  "denotes (Seq (Atom p) r) w \<longleftrightarrow> (\<exists>c v. w = c # v \<and> p c \<and> denotes r v)"
proof
  assume "denotes (Seq (Atom p) r) w"
  then obtain u v c where "w = u @ v" "u = [c]" "p c" "denotes r v" by auto
  then show "\<exists>c v. w = c # v \<and> p c \<and> denotes r v" by simp
next
  assume "\<exists>c v. w = c # v \<and> p c \<and> denotes r v"
  then obtain c v where "w = [c] @ v" "denotes (Atom p) [c]" "denotes r v" by auto
  then show "denotes (Seq (Atom p) r) w"
    unfolding denotes.simps(5) by blast
qed

lemma plus_atom: "denotes (Plus1 (Atom p)) w \<longleftrightarrow> w \<noteq> [] \<and> list_all p w"
  unfolding Plus1_def seq_atom star_atom by (cases w) auto

lemma at_least_two_atom: "denotes (AtLeast2 (Atom p)) w \<longleftrightarrow> 2 \<le> length w \<and> list_all p w"
proof (cases w)
  case Nil
  then show ?thesis unfolding AtLeast2_def seq_atom star_atom by simp
next
  case (Cons a u)
  then show ?thesis unfolding AtLeast2_def seq_atom star_atom by (cases u) auto
qed

lemma email_regex_language: "matches EMAIL_REGEX s \<longleftrightarrow> spec_address_pattern s"
proof -
  have "denotes EMAIL_REGEX s \<longleftrightarrow>
          (\<exists>local r. s = local @ r \<and> denotes (Plus1 (Atom local_char)) local
             \<and> (\<exists>a r'. r = a # r' \<and> a = CHR ''@''
                  \<and> (\<exists>dom r''. r' = dom @ r'' \<and> denotes (Plus1 (Atom domain_char)) dom
                       \<and> (\<exists>d tld. r'' = d # tld \<and> d = CHR ''.''
                            \<and> denotes (AtLeast2 (Atom letter)) tld))))"
    unfolding EMAIL_REGEX_def denotes.simps(5)[of "Plus1 _"] seq_atom ..
  also have "\<dots> \<longleftrightarrow>
          (\<exists>local dom tld. s = local @ ''@'' @ dom @ ''.'' @ tld
             \<and> denotes (Plus1 (Atom local_char)) local
             \<and> denotes (Plus1 (Atom domain_char)) dom
             \<and> denotes (AtLeast2 (Atom letter)) tld)"
    by simp blast
  also have "\<dots> \<longleftrightarrow> spec_address_pattern s"
    unfolding spec_address_pattern_def plus_atom at_least_two_atom by auto
  finally show ?thesis by (simp add: matches_denotes)
qed

text \<open>
  On strings the validator accepts exactly the addresses of the specified pattern and those
  addresses followed by one line feed.
\<close>

lemma validate_email_address_language:
  "validate_email_address s \<longleftrightarrow> spec_address_pattern s \<or> (\<exists>t. s = t @ [LF] \<and> spec_address_pattern t)"
proof -
  have "(s \<noteq> [] \<and> last s = LF \<and> spec_address_pattern (butlast s))
          \<longleftrightarrow> (\<exists>t. s = t @ [LF] \<and> spec_address_pattern t)"
    by (cases s rule: rev_cases) auto
  then show ?thesis
    by (simp add: validate_email_address_def match_anchored_def email_regex_language)
qed

lemma pattern_ends_with_letter: "spec_address_pattern s \<Longrightarrow> s \<noteq> [] \<and> letter (last s)"
proof -
  assume "spec_address_pattern s"
  then obtain pre tld where "s = pre @ tld" "2 \<le> length tld" "list_all letter tld"
    unfolding spec_address_pattern_def by (metis append.assoc)
  then show ?thesis
    by (cases tld rule: rev_cases) (auto simp: list_all_iff)
qed

text \<open>
  Claim C8 at its failing inputs. The validator accepts an address followed by a line feed,
  which is not of the specified pattern, and on a value that is not a string
  \<open>validate_email_address\<close> of \<open>smtp_utils.py\<close> raises where that of \<open>smtp_client.py\<close> returns
  \<open>False\<close>.
\<close>

theorem validator_divergence:
  "validate_email_address (''a@b.com'' @ [LF])
   \<and> \<not> spec_address_pattern (''a@b.com'' @ [LF])
   \<and> validate_email_address_dyn (PyStr (''a@b.com'' @ [LF])) = Inr True
   \<and> validate_email_address_dyn (PyInt 42) = Inl TypeError
   \<and> client_validate_email_address (PyInt 42) = False"
proof -
  have "\<not> letter LF" by (simp add: letter_def in_range_def code_def LF_def)
  then have "\<not> spec_address_pattern (''a@b.com'' @ [LF])"
    using pattern_ends_with_letter[of "''a@b.com'' @ [LF]"] by auto
  moreover have "validate_email_address (''a@b.com'' @ [LF])"
    by (simp add: validate_email_address_def match_anchored_def EMAIL_REGEX_def Plus1_def
        AtLeast2_def local_char_def domain_char_def letter_def in_range_def code_def LF_def)
  ultimately show ?thesis
    by (simp add: validate_email_address_dyn_def client_validate_email_address_def)
qed

subsection \<open>Concrete runs\<close>

lemmas address_eval =
  validate_email_address_def match_anchored_def EMAIL_REGEX_def Plus1_def AtLeast2_def
  local_char_def domain_char_def letter_def in_range_def code_def LF_def

lemmas line_eval = accepted_def strip_def is_space_def code_def CRLF_def CR_def LF_def

lemma valid_examples:
  "validate_email_address ''a@b.com''" "validate_email_address ''c@d.com''"
  "validate_email_address ''e@f.org''" "\<not> validate_email_address ''nobody''"
  "\<not> validate_email_address ''x@y''"
  by (simp_all add: address_eval)

text \<open>Claim C1 at an invalid sender, and at a valid sender with an invalid second recipient.\<close>

theorem checks_before_io_witness:
  "\<not> validate_email_address ''nobody''
   \<and> send_email ''nobody'' ''pw'' [''c@d.com''] ''Hi'' ''Hello'' [] ''now'' (scripted [])
       = ((False, 1), scripted [])
   \<and> validate_email_address ''a@b.com''
   \<and> [''c@d.com'', ''x@y'', ''e@f.org''] = [''c@d.com''] @ ''x@y'' # [''e@f.org'']
   \<and> validate_email_address ''c@d.com'' \<and> \<not> validate_email_address ''x@y''
   \<and> send_email ''a@b.com'' ''pw'' [''c@d.com'', ''x@y'', ''e@f.org''] ''Hi'' ''Hello'' [] ''now''
         (scripted []) = ((False, 2), scripted [])"
  using checks_before_io[of "''nobody''" "''pw''" "[''c@d.com'']" "''Hi''" "''Hello''" "[]" "''now''"
      "scripted []"]
    checks_before_io[of "''a@b.com''" "''pw''" "[''c@d.com'', ''x@y'', ''e@f.org'']"
      "''Hi''" "''Hello''" "[]" "''now''" "scripted []" "[''c@d.com'']" "''x@y''" "[''e@f.org'']"]
    valid_examples
  by simp

text \<open>Claim C4 at a rejected and at an accepted line.\<close>

theorem response_classification_witness:
  "inbox (scripted [''550 rejected'' @ CRLF]) = Data (''550 rejected'' @ CRLF) # []
   \<and> fst (read_server_response (scripted [''550 rejected'' @ CRLF]))
       = Inl (SMTPClientError ''Error del servidor: 550 rejected'')
   \<and> inbox (scripted ['' 250 ok'' @ CRLF]) = Data ('' 250 ok'' @ CRLF) # []
   \<and> fst (read_server_response (scripted ['' 250 ok'' @ CRLF])) = Inr ''250 ok''"
proof -
  have h1: "inbox (scripted [''550 rejected'' @ CRLF]) = Data (''550 rejected'' @ CRLF) # []"
    and h2: "inbox (scripted ['' 250 ok'' @ CRLF]) = Data ('' 250 ok'' @ CRLF) # []"
    by (simp_all add: scripted_def)
  show ?thesis
    using response_classification[OF h1] response_classification[OF h2] h1 h2
    by (simp add: line_eval)
qed

text \<open>Claim C3 as stated fails: with the empty password \<open>AUTH PLAIN\<close> is still written.\<close>

theorem auth_without_credential_counterexample:
  "Sent (''AUTH PLAIN'' @ CRLF) \<in> set (log (snd (send_email ''a@b.com'' [] [''c@d.com''] ''Hi''
      ''Hello'' [] ''now''
       (scripted [''220 ready'', ''250 ok'', ''502 not implemented'', ''250 ok'', ''250 ok'',
                  ''354 go ahead'', ''250 ok'', ''221 bye'']))))"
  by code_simp

text \<open>Claim C5 at a rejected \<open>MAIL FROM\<close> and at a rejected second recipient of three.\<close>

theorem failing_step_tags_witness:
  "validate_email_address ''a@b.com''
   \<and> recipients_valid [''c@d.com'', ''e@f.org'', ''g@h.net'']
   \<and> run_all (opening_steps ''a@b.com'' ''pw'')
         ((scripted [''220 ready'', ''250 ok'', ''502 not implemented'', ''451 try later''])
            \<lparr>error_type := 0\<rparr>)
       = (Inr (), (scripted [''451 try later''])
                    \<lparr>log := [Opened, Received, Sent (''EHLO localhost'' @ CRLF), Received,
                             Sent (''AUTH PLAIN'' @ CRLF), Received]\<rparr>)
   \<and> \<not> accepted ''451 try later''
   \<and> fst (send_email ''a@b.com'' ''pw'' [''c@d.com'', ''e@f.org'', ''g@h.net''] ''Hi'' ''Hello'' []
         ''now'' (scripted [''220 ready'', ''250 ok'', ''502 not implemented'', ''451 try later'']))
       = (False, 1)
   \<and> run_all (opening_steps ''a@b.com'' ''pw'' @ [mail_from ''a@b.com''])
         ((scripted [''220 ready'', ''250 ok'', ''502 not implemented'', ''250 ok'', ''250 ok'',
                     ''550 rejected'', ''250 ok'']) \<lparr>error_type := 0\<rparr>)
       = (Inr (), (scripted [''250 ok'', ''550 rejected'', ''250 ok''])
                    \<lparr>log := [Opened, Received, Sent (''EHLO localhost'' @ CRLF), Received,
                             Sent (''AUTH PLAIN'' @ CRLF), Received,
                             Sent (''MAIL FROM:a@b.com'' @ CRLF), Received]\<rparr>)
   \<and> \<not> accepted ''550 rejected''
   \<and> send_email ''a@b.com'' ''pw'' [''c@d.com'', ''e@f.org'', ''g@h.net''] ''Hi'' ''Hello'' []
         ''now'' (scripted [''220 ready'', ''250 ok'', ''502 not implemented'', ''250 ok'',
                            ''250 ok'', ''550 rejected'', ''250 ok''])
       = ((False, 2),
          (scripted [''250 ok''])
            \<lparr>log := [Opened, Received, Sent (''EHLO localhost'' @ CRLF), Received,
                     Sent (''AUTH PLAIN'' @ CRLF), Received,
                     Sent (''MAIL FROM:a@b.com'' @ CRLF), Received,
                     Sent (''RCPT TO:c@d.com'' @ CRLF), Received,
                     Sent (''RCPT TO:e@f.org'' @ CRLF), Received],
              error_type := 2\<rparr>)"
proof -
  let ?rs = "[''c@d.com'', ''e@f.org'', ''g@h.net'']"
  let ?sa = "(scripted [''451 try later''])
                    \<lparr>log := [Opened, Received, Sent (''EHLO localhost'' @ CRLF), Received,
                             Sent (''AUTH PLAIN'' @ CRLF), Received]\<rparr>"
  let ?sb = "(scripted [''250 ok'', ''550 rejected'', ''250 ok''])
                    \<lparr>log := [Opened, Received, Sent (''EHLO localhost'' @ CRLF), Received,
                             Sent (''AUTH PLAIN'' @ CRLF), Received,
                             Sent (''MAIL FROM:a@b.com'' @ CRLF), Received]\<rparr>"
  have v: "validate_email_address ''a@b.com''" and rv: "recipients_valid ?rs"
    by code_simp+
  have a: "run_all (opening_steps ''a@b.com'' ''pw'')
         ((scripted [''220 ready'', ''250 ok'', ''502 not implemented'', ''451 try later''])
            \<lparr>error_type := 0\<rparr>) = (Inr (), ?sa)"
    by code_simp
  have b: "run_all (opening_steps ''a@b.com'' ''pw'' @ [mail_from ''a@b.com''])
         ((scripted [''220 ready'', ''250 ok'', ''502 not implemented'', ''250 ok'', ''250 ok'',
                     ''550 rejected'', ''250 ok'']) \<lparr>error_type := 0\<rparr>) = (Inr (), ?sb)"
    by code_simp
  have n: "\<not> accepted ''451 try later''" "\<not> accepted ''550 rejected''" "accepted ''250 ok''"
    by (simp_all add: line_eval)
  have sa: "wfault ?sa = None" "inbox ?sa = Data ''451 try later'' # []"
    and sb: "wfault ?sb = None"
      "inbox ?sb = map Data [''250 ok''] @ Data ''550 rejected'' # [Data ''250 ok'']"
    by (simp_all add: scripted_def)
  note t1 = failing_step_tags[OF v rv, where pw = "''pw''" and sa = ?sa
      and line = "''451 try later''" and rest = "[]"
      and s = "scripted [''220 ready'', ''250 ok'', ''502 not implemented'', ''451 try later'']"
      and subj = "''Hi''" and body = "''Hello''" and hdrs = "[]" and date = "''now''",
      THEN conjunct1, rule_format]
  note t2 = failing_step_tags[OF v rv, where pw = "''pw''" and sb = ?sb
      and pre = "[''c@d.com'']" and r = "''e@f.org''" and post = "[''g@h.net'']"
      and oks = "[''250 ok'']" and bad = "''550 rejected''" and remaining = "[Data ''250 ok'']"
      and s = "scripted [''220 ready'', ''250 ok'', ''502 not implemented'', ''250 ok'',
                         ''250 ok'', ''550 rejected'', ''250 ok'']"
      and subj = "''Hi''" and body = "''Hello''" and hdrs = "[]" and date = "''now''",
      THEN conjunct2, rule_format]
  have c1: "fst (send_email ''a@b.com'' ''pw'' ?rs ''Hi'' ''Hello'' []
         ''now'' (scripted [''220 ready'', ''250 ok'', ''502 not implemented'', ''451 try later'']))
       = (False, 1)"
    using t1 a sa n by simp
  have c2: "send_email ''a@b.com'' ''pw'' ?rs ''Hi'' ''Hello'' []
         ''now'' (scripted [''220 ready'', ''250 ok'', ''502 not implemented'', ''250 ok'',
                            ''250 ok'', ''550 rejected'', ''250 ok''])
       = ((False, 2),
          ?sb\<lparr>inbox := [Data ''250 ok''],
                log := log ?sb @ rcpt_events ([''c@d.com''] @ [''e@f.org'']), error_type := 2\<rparr>)"
    using t2 b sb n by simp
  have c3: "send_email ''a@b.com'' ''pw'' ?rs ''Hi'' ''Hello'' []
         ''now'' (scripted [''220 ready'', ''250 ok'', ''502 not implemented'', ''250 ok'',
                            ''250 ok'', ''550 rejected'', ''250 ok''])
       = ((False, 2),
          (scripted [''250 ok''])
            \<lparr>log := [Opened, Received, Sent (''EHLO localhost'' @ CRLF), Received,
                     Sent (''AUTH PLAIN'' @ CRLF), Received,
                     Sent (''MAIL FROM:a@b.com'' @ CRLF), Received,
                     Sent (''RCPT TO:c@d.com'' @ CRLF), Received,
                     Sent (''RCPT TO:e@f.org'' @ CRLF), Received],
              error_type := 2\<rparr>)"
    unfolding c2 by (simp add: rcpt_events_def encode_def encode_char_def code_def scripted_def
        CRLF_def CR_def LF_def)
  show ?thesis
    by (intro conjI v rv a n(1) c1 b n(2) c3)
qed

text \<open>Claim C6 at a \<open>550\<close> response to \<open>DATA\<close> and at a refused connection.\<close>

theorem failure_aggregation_witness:
  "validate_email_address ''a@b.com'' \<and> recipients_valid [''c@d.com'']
   \<and> run_all (session_steps ''a@b.com'' ''pw'' [''c@d.com'']
                (build_content ''a@b.com'' [''c@d.com''] ''Hi'' ''Hello'' [] ''now''))
         ((scripted [''220 ready'', ''250 ok'', ''502 not implemented'', ''250 ok'', ''250 ok'',
                     ''550 no mailbox'']) \<lparr>error_type := 0\<rparr>)
       = (Inl (SMTPClientError ''Error del servidor: 550 no mailbox''),
          (scripted [])
            \<lparr>log := [Opened, Received, Sent (''EHLO localhost'' @ CRLF), Received,
                     Sent (''AUTH PLAIN'' @ CRLF), Received,
                     Sent (''MAIL FROM:a@b.com'' @ CRLF), Received,
                     Sent (''RCPT TO:c@d.com'' @ CRLF), Received,
                     Sent (''DATA'' @ CRLF), Received]\<rparr>)
   \<and> fst (send_email ''a@b.com'' ''pw'' [''c@d.com''] ''Hi'' ''Hello'' [] ''now''
         (scripted [''220 ready'', ''250 ok'', ''502 not implemented'', ''250 ok'', ''250 ok'',
                    ''550 no mailbox''])) = (False, 2)
   \<and> run_all (session_steps ''a@b.com'' ''pw'' [''c@d.com'']
                (build_content ''a@b.com'' [''c@d.com''] ''Hi'' ''Hello'' [] ''now''))
         ((scripted [])\<lparr>can_connect := False\<rparr> \<lparr>error_type := 0\<rparr>)
       = (Inl ConnectionError, (scripted [])\<lparr>can_connect := False, log := [Refused]\<rparr>)
   \<and> fst (send_email ''a@b.com'' ''pw'' [''c@d.com''] ''Hi'' ''Hello'' [] ''now''
         ((scripted [])\<lparr>can_connect := False\<rparr>)) = (False, 3)"
proof -
  let ?content = "build_content ''a@b.com'' [''c@d.com''] ''Hi'' ''Hello'' [] ''now''"
  let ?s = "scripted [''220 ready'', ''250 ok'', ''502 not implemented'', ''250 ok'', ''250 ok'',
                     ''550 no mailbox'']"
  let ?sa = "(scripted [])
            \<lparr>log := [Opened, Received, Sent (''EHLO localhost'' @ CRLF), Received,
                     Sent (''AUTH PLAIN'' @ CRLF), Received,
                     Sent (''MAIL FROM:a@b.com'' @ CRLF), Received,
                     Sent (''RCPT TO:c@d.com'' @ CRLF), Received,
                     Sent (''DATA'' @ CRLF), Received]\<rparr>"
  let ?t = "(scripted [])\<lparr>can_connect := False\<rparr>"
  let ?ta = "(scripted [])\<lparr>can_connect := False, log := [Refused]\<rparr>"
  have v: "validate_email_address ''a@b.com''" and rv: "recipients_valid [''c@d.com'']"
    by code_simp+
  have a: "run_all (session_steps ''a@b.com'' ''pw'' [''c@d.com''] ?content) (?s\<lparr>error_type := 0\<rparr>)
             = (Inl (SMTPClientError ''Error del servidor: 550 no mailbox''), ?sa)"
    by code_simp
  have b: "run_all (session_steps ''a@b.com'' ''pw'' [''c@d.com''] ?content) (?t\<lparr>error_type := 0\<rparr>)
             = (Inl ConnectionError, ?ta)"
    by code_simp
  have e: "error_type ?sa = 0" by (simp add: scripted_def)
  from failure_aggregation[OF v rv a, THEN conjunct1, rule_format, of "''Error del servidor: 550 no mailbox''"]
  have c1: "fst (send_email ''a@b.com'' ''pw'' [''c@d.com''] ''Hi'' ''Hello'' [] ''now'' ?s) = (False, 2)"
    using e by auto
  from failure_aggregation[OF v rv b, THEN conjunct2]
  have c2: "fst (send_email ''a@b.com'' ''pw'' [''c@d.com''] ''Hi'' ''Hello'' [] ''now'' ?t) = (False, 3)"
    by simp
  show ?thesis
    by (intro conjI v rv a c1 b c2)
qed

text \<open>Claim C7 at a server that answers \<open>502\<close> to \<open>AUTH PLAIN\<close>.\<close>

theorem unsupported_auth_is_skipped_witness:
  "validate_email_address ''a@b.com'' \<and> recipients_valid [''c@d.com'', ''e@f.org'']
   \<and> \<not> accepted ''502 not implemented'' \<and> contains ''502'' (strip ''502 not implemented'')
   \<and> fst (send_email ''a@b.com'' ''pw'' [''c@d.com'', ''e@f.org''] ''Hi'' ''Hello'' [] ''now''
        (scripted [''220 ready'', ''250 ok'', ''502 not implemented'', ''250 ok'', ''250 ok'',
                   ''250 ok'', ''354 go ahead'', ''250 ok'', ''221 bye''])) = (True, 0)"
proof -
  let ?s = "scripted [''220 ready'', ''250 ok'', ''502 not implemented'', ''250 ok'', ''250 ok'',
                   ''250 ok'', ''354 go ahead'', ''250 ok'', ''221 bye'']"
  have v: "validate_email_address ''a@b.com''"
    and rv: "recipients_valid [''c@d.com'', ''e@f.org'']"
    by code_simp+
  have n: "\<not> accepted ''502 not implemented''" and c: "contains ''502'' (strip ''502 not implemented'')"
    by (simp_all add: line_eval)
  have ok: "accepted ''220 ready''" "accepted ''250 ok''" "accepted ''354 go ahead''"
    "accepted ''221 bye''"
    by (simp_all add: line_eval)
  have i: "inbox ?s = Data ''220 ready'' # Data ''250 ok'' # Data ''502 not implemented''
             # Data ''250 ok'' # map Data [''250 ok'', ''250 ok'']
             @ Data ''354 go ahead'' # Data ''250 ok'' # Data ''221 bye'' # []"
    and cw: "can_connect ?s" "wfault ?s = None"
    by (simp_all add: scripted_def)
  have "send_email ''a@b.com'' ''pw'' [''c@d.com'', ''e@f.org''] ''Hi'' ''Hello'' [] ''now'' ?s
          = ((True, 0),
            ?s\<lparr>inbox := [],
              log := log ?s @ [Opened, Received, Sent (''EHLO localhost'' @ CRLF), Received,
                              Sent (''AUTH PLAIN'' @ CRLF), Received,
                              Sent (encode (''MAIL FROM:'' @ ''a@b.com'' @ CRLF)), Received]
                     @ rcpt_events [''c@d.com'', ''e@f.org'']
                     @ [Sent (''DATA'' @ CRLF), Received,
                        Sent (encode (build_content ''a@b.com'' [''c@d.com'', ''e@f.org''] ''Hi''
                                        ''Hello'' [] ''now'')
                              @ CRLF @ ''.'' @ CRLF), Received,
                        Sent (''QUIT'' @ CRLF), Received],
              error_type := 0\<rparr>)"
    by (rule unsupported_auth_is_skipped[OF v rv cw i ok(1) ok(2) ok(2) _ _ ok(3) ok(2) ok(4) n c])
      (simp_all add: ok)
  then have r: "fst (send_email ''a@b.com'' ''pw'' [''c@d.com'', ''e@f.org''] ''Hi'' ''Hello'' []
              ''now'' ?s) = (True, 0)"
    by simp
  show ?thesis
    by (intro conjI v rv n c r)
qed

text \<open>
  Claim C2 at a delivered message: the call returns success having opened one connection
  and closed none. An invalid sender leaves the log empty.
\<close>

theorem connection_never_closed_witness:
  "validate_email_address ''a@b.com'' \<and> recipients_valid [''c@d.com'']
   \<and> fst (send_email ''a@b.com'' ''pw'' [''c@d.com''] ''Hi'' ''Hello'' [] ''now''
        (scripted [''220 ready'', ''250 ok'', ''502 not implemented'', ''250 ok'', ''250 ok'',
                   ''354 go ahead'', ''250 ok'', ''221 bye''])) = (True, 0)
   \<and> (\<exists>evs. log (snd (send_email ''a@b.com'' ''pw'' [''c@d.com''] ''Hi'' ''Hello'' [] ''now''
                        (scripted [''220 ready'', ''250 ok'', ''502 not implemented'', ''250 ok'',
                                   ''250 ok'', ''354 go ahead'', ''250 ok'', ''221 bye''])))
              = Opened # evs
            \<and> Opened \<notin> set evs \<and> Refused \<notin> set evs \<and> Closed \<notin> set evs)
   \<and> \<not> (validate_email_address ''nobody'' \<and> recipients_valid [''c@d.com''])
   \<and> log (snd (send_email ''nobody'' ''pw'' [''c@d.com''] ''Hi'' ''Hello'' [] ''now''
                 (scripted [''220 ready'']))) = []"
proof -
  let ?s = "scripted [''220 ready'', ''250 ok'', ''502 not implemented'', ''250 ok'', ''250 ok'',
                   ''354 go ahead'', ''250 ok'', ''221 bye'']"
  have v: "validate_email_address ''a@b.com''" and rv: "recipients_valid [''c@d.com'']"
    and nv: "\<not> (validate_email_address ''nobody'' \<and> recipients_valid [''c@d.com''])"
    by code_simp+
  have sent: "fst (send_email ''a@b.com'' ''pw'' [''c@d.com''] ''Hi'' ''Hello'' [] ''now'' ?s)
                = (True, 0)"
    by code_simp
  have c: "can_connect ?s" and l: "log ?s = []" "log (scripted [''220 ready'']) = []"
    by (simp_all add: scripted_def)
  note t1 = connection_never_closed[of "''a@b.com''" "[''c@d.com'']" "''pw''" "''Hi''" "''Hello''"
      "[]" "''now''" ?s]
  note t2 = connection_never_closed[of "''nobody''" "[''c@d.com'']" "''pw''" "''Hi''" "''Hello''"
      "[]" "''now''" "scripted [''220 ready'']"]
  from t1 v rv c l(1)
  have e: "\<exists>evs. log (snd (send_email ''a@b.com'' ''pw'' [''c@d.com''] ''Hi'' ''Hello'' [] ''now'' ?s))
              = Opened # evs
            \<and> Opened \<notin> set evs \<and> Refused \<notin> set evs \<and> Closed \<notin> set evs"
    by simp
  from t2 nv l(2)
  have u: "log (snd (send_email ''nobody'' ''pw'' [''c@d.com''] ''Hi'' ''Hello'' [] ''now''
                 (scripted [''220 ready'']))) = []"
    by simp
  show ?thesis
    by (intro conjI v rv sent e nv u)
qed

text \<open>Claim C3, as amended, at the empty password and a \<open>334\<close> response.\<close>

theorem auth_always_attempted_witness:
  "validate_email_address ''a@b.com'' \<and> recipients_valid [''c@d.com'']
   \<and> accepted ''220 ready'' \<and> accepted ''250 ok''
   \<and> startswith (strip ''334 '') ''334''
   \<and> (\<exists>evs. log (snd (send_email ''a@b.com'' [] [''c@d.com''] ''Hi'' ''Hello'' [] ''now''
                        (scripted [''220 ready'', ''250 ok'', ''334 '', ''235 ok''])))
              = log (scripted [''220 ready'', ''250 ok'', ''334 '', ''235 ok''])
                @ [Opened, Received, Sent (''EHLO localhost'' @ CRLF), Received,
                   Sent (''AUTH PLAIN'' @ CRLF), Received]
                @ [Sent (b64encode (encode (NUL # ''a@b.com'' @ NUL # [])) @ CRLF)]
                @ evs)"
proof -
  let ?s = "scripted [''220 ready'', ''250 ok'', ''334 '', ''235 ok'']"
  have v: "validate_email_address ''a@b.com''" and rv: "recipients_valid [''c@d.com'']"
    by code_simp+
  have ok: "accepted ''220 ready''" "accepted ''250 ok''"
    and st: "startswith (strip ''334 '') ''334''"
    by (simp_all add: line_eval)
  have cw: "can_connect ?s" "wfault ?s = None"
    and i: "inbox ?s = Data ''220 ready'' # Data ''250 ok'' # Data ''334 '' # [Data ''235 ok'']"
    by (simp_all add: scripted_def)
  from auth_always_attempted[OF v rv cw i ok, of "[]" "''Hi''" "''Hello''" "[]" "''now''"]
  have "\<exists>evs. log (snd (send_email ''a@b.com'' [] [''c@d.com''] ''Hi'' ''Hello'' [] ''now'' ?s))
              = log ?s
                @ [Opened, Received, Sent (''EHLO localhost'' @ CRLF), Received,
                   Sent (''AUTH PLAIN'' @ CRLF), Received]
                @ [Sent (b64encode (encode (NUL # ''a@b.com'' @ NUL # [])) @ CRLF)]
                @ evs"
    using st by simp
  then show ?thesis
    using v rv ok st by blast
qed

text \<open>Claim C9, as amended, at an error type outside the table.\<close>

theorem outcome_table_witness:
  "(7::int) \<notin> {0, 1, 2, 3} \<and> main_output (False, 7) = (550, ''Unknown error'')
   \<and> main_output (True, 7) = (250, ''Message accepted for delivery'')"
  using outcome_table[of 7] by simp



end
